theory Spec2Isabelle
  imports Main
begin

section \<open>Python values: exceptions, tuple indexing, scalar-or-tuple arguments\<close>

text \<open>
  Every exception the modelled code can raise is a value. \<open>AssertionError\<close> carries the
  message of the failed \<^verbatim>\<open>assert\<close>; the other constructors are the Python (or tensor
  engine) exception classes.
\<close>

datatype error =
    IndexError
  | AssertionError string
  | ZeroDivisionError
  | ValueError
  | RuntimeError
  | AttributeError
  | TypeError

text \<open>Python indexing of a tuple or list: a negative index counts from the end.\<close>

definition py_index :: "'a list \<Rightarrow> int \<Rightarrow> error + 'a" where
  "py_index xs i =
     (if 0 \<le> i \<and> i < int (length xs) then Inr (xs ! nat i)
      else if i < 0 \<and> - int (length xs) \<le> i then Inr (xs ! nat (int (length xs) + i))
      else Inl IndexError)"

text \<open>
  The constructor arguments \<^verbatim>\<open>kernel_size\<close>, \<^verbatim>\<open>stride\<close> and \<^verbatim>\<open>padding\<close> are either a
  tuple or a single value that is repeated \<^verbatim>\<open>num_dims\<close> times
  (\<^verbatim>\<open>tuple(v for _ in range(num_dims))\<close>; an empty range for \<^verbatim>\<open>num_dims <= 0\<close>).
\<close>

datatype tuple_arg = Scalar int | Tup "int list"

definition as_tuple :: "tuple_arg \<Rightarrow> int \<Rightarrow> int list" where
  "as_tuple v num_dims = (case v of Tup xs \<Rightarrow> xs | Scalar k \<Rightarrow> replicate (nat num_dims) k)"

section \<open>The tensor engine: dense row-major tensors\<close>

text \<open>
  A tensor is its shape and its elements in row-major (contiguous) order. The element type
  is left open; arithmetic on it is exact.
\<close>

record 'a tensor =
  shape :: "nat list"
  data :: "'a list"

fun unflat :: "nat list \<Rightarrow> nat \<Rightarrow> nat list" where
  "unflat [] k = []"
| "unflat (n # ns) k = (k div prod_list ns) # unflat ns (k mod prod_list ns)"

fun flat :: "nat list \<Rightarrow> nat list \<Rightarrow> nat" where
  "flat (n # ns) (i # js) = i * prod_list ns + flat ns js"
| "flat _ _ = 0"

definition tabulate :: "nat list \<Rightarrow> (nat list \<Rightarrow> 'a) \<Rightarrow> 'a tensor" where
  "tabulate sh f = \<lparr>shape = sh, data = map (\<lambda>k. f (unflat sh k)) [0..<prod_list sh]\<rparr>"

definition elem :: "'a tensor \<Rightarrow> nat list \<Rightarrow> 'a" where
  "elem t idx = data t ! flat (shape t) idx"

definition valid_index :: "nat list \<Rightarrow> nat list \<Rightarrow> bool" where
  "valid_index sh idx = list_all2 (\<lambda>i n. i < n) idx sh"

definition wf_tensor :: "'a tensor \<Rightarrow> bool" where
  "wf_tensor t = (length (data t) = prod_list (shape t))"

section \<open>The tensor engine: base convolution primitives (construction)\<close>

datatype conv_class =
  Conv1d | Conv2d | Conv3d | ConvTranspose1d | ConvTranspose2d | ConvTranspose3d

fun class_dims :: "conv_class \<Rightarrow> nat" where
  "class_dims Conv1d = 1"
| "class_dims Conv2d = 2"
| "class_dims Conv3d = 3"
| "class_dims ConvTranspose1d = 1"
| "class_dims ConvTranspose2d = 2"
| "class_dims ConvTranspose3d = 3"

fun class_transposed :: "conv_class \<Rightarrow> bool" where
  "class_transposed Conv1d = False"
| "class_transposed Conv2d = False"
| "class_transposed Conv3d = False"
| "class_transposed ConvTranspose1d = True"
| "class_transposed ConvTranspose2d = True"
| "class_transposed ConvTranspose3d = True"

record 'a conv_prim =
  p_class :: conv_class
  p_in_channels :: nat
  p_out_channels :: nat
  p_kernel_size :: "int list"
  p_stride :: "int list"
  p_padding :: "int list"
  p_padding_mode :: string
  p_groups :: nat
  p_weight :: "'a tensor"
  p_bias :: "'a tensor option"

text \<open>
  The engine fills a new parameter tensor with values of its own (random for a weight,
  uninitialised memory for \<^verbatim>\<open>torch.Tensor(n)\<close>). They are parameters of the model: the
  \<open>n\<close>-th primitive the engine creates gets the weight \<open>default_weight n\<close>.
\<close>

record 'a engine =
  default_weight :: "nat \<Rightarrow> nat list \<Rightarrow> 'a"
  default_bias :: "nat \<Rightarrow> nat list \<Rightarrow> 'a"

definition valid_padding_modes :: "string list" where
  "valid_padding_modes = [''zeros'', ''reflect'', ''replicate'', ''circular'']"

text \<open>
  Modelled from the spec: the base convolution and transposed-convolution primitives belong
  to the tensor engine, not to the repository. Their constructor checks the channel grouping
  and the padding mode and allocates the weight of shape
  \<open>(out_channels, in_channels / groups, kernel...)\<close> (channels swapped when transposed).
  The second component counts the primitives created so far.
\<close>

definition nn_Conv ::
  "'a engine \<Rightarrow> conv_class \<Rightarrow> nat \<Rightarrow> nat \<Rightarrow> bool \<Rightarrow> int list \<Rightarrow> int list \<Rightarrow> int list \<Rightarrow>
   string \<Rightarrow> nat \<Rightarrow> nat \<Rightarrow> (error + 'a conv_prim) \<times> nat" where
  "nn_Conv eng cls cin cout with_bias ks st pd pm g n =
     (if g = 0 \<or> cin mod g \<noteq> 0 \<or> cout mod g \<noteq> 0 then (Inl ValueError, n)
      else if pm \<notin> set valid_padding_modes then (Inl ValueError, n)
      else if class_transposed cls \<and> pm \<noteq> ''zeros'' then (Inl ValueError, n)
      else if \<exists>k \<in> set ks. k < 0 then (Inl RuntimeError, n)
      else (Inr \<lparr>p_class = cls, p_in_channels = cin, p_out_channels = cout,
                 p_kernel_size = ks, p_stride = st, p_padding = pd, p_padding_mode = pm,
                 p_groups = g,
                 p_weight = tabulate
                   ((if class_transposed cls then [cin, cout div g] else [cout, cin div g])
                      @ map nat ks)
                   (default_weight eng n),
                 p_bias = (if with_bias then Some (tabulate [cout] (default_bias eng n))
                           else None)\<rparr>,
            Suc n))"

section \<open>ConvNd and ConvTransposeNd: the operator tree and its construction\<close>

text \<open>
  An operator instance stores its constructor arguments, its bias (or \<open>None\<close>) and its child
  layers. A child is another operator instance or a base primitive of the engine.
\<close>

datatype 'a ndconv =
  NdConv (self_rank: int) (self_in_channels: nat) (self_out_channels: nat)
         (self_num_dims: int) (self_kernel_size: "int list") (self_stride: "int list")
         (self_padding: "int list") (self_padding_mode: string) (self_groups: nat)
         (self_use_bias: bool) (self_bias: "'a tensor option")
         (self_conv_layers: "'a layer list")
and 'a layer = is_Sub: Sub "'a ndconv" | is_Base: Base (the_prim: "'a conv_prim")

record 'a init_args =
  in_channels :: nat
  out_channels :: nat
  num_dims :: int
  kernel_size :: tuple_arg
  stride :: tuple_arg
  padding :: tuple_arg
  padding_mode :: string
  dilation :: int
  groups :: nat
  rank :: int
  use_bias :: bool
  bias_initializer :: "('a tensor \<Rightarrow> nat list \<Rightarrow> 'a) option"
  kernel_initializer :: "('a tensor \<Rightarrow> nat list \<Rightarrow> 'a) option"

text \<open>
  An initializer is called for its effect on the parameter tensor it is given: it fills the
  tensor in place. It is modelled by the element it writes at each index (which may depend
  on the tensor as it was).
\<close>

definition fill_in_place :: "('a tensor \<Rightarrow> nat list \<Rightarrow> 'a) \<Rightarrow> 'a tensor \<Rightarrow> 'a tensor" where
  "fill_in_place f t = tabulate (shape t) (f t)"

text \<open>
  The loop \<^verbatim>\<open>for _ in range(next_dim_len)\<close> of both constructors: \<open>mk\<close> builds one child
  from the engine's creation counter; the first failure aborts the loop.
\<close>

definition build_layers ::
  "nat \<Rightarrow> (nat \<Rightarrow> (error + 'a layer) \<times> nat) \<Rightarrow> nat \<Rightarrow> (error + 'a layer list) \<times> nat" where
  "build_layers next_dim_len mk n =
     fold (\<lambda>_ acc. case acc of
                      (Inl e, n') \<Rightarrow> (Inl e, n')
                    | (Inr ls, n') \<Rightarrow>
                        (case mk n' of
                           (Inl e, n'') \<Rightarrow> (Inl e, n'')
                         | (Inr l, n'') \<Rightarrow> (Inr (ls @ [l]), n'')))
          [0..<next_dim_len] (Inr [], n)"

lemma build_layers_cong [fundef_cong]:
  "k1 = k2 \<Longrightarrow> (\<And>m. mk1 m = mk2 m) \<Longrightarrow> n1 = n2 \<Longrightarrow>
   build_layers k1 mk1 n1 = build_layers k2 mk2 n2"
proof -
  assume "k1 = k2" and "\<And>m. mk1 m = mk2 m" and "n1 = n2"
  moreover from this have "mk1 = mk2" by blast
  ultimately show ?thesis by simp
qed

text \<open>
  The constructors \<^verbatim>\<open>ConvNd.__init__\<close> and \<^verbatim>\<open>ConvTransposeNd.__init__\<close> are the same text
  up to the table of base primitives, the class of the recursive child and the messages of
  the assertions. \<open>Nd_init\<close> is that text; its first argument says which class is being
  built. The last argument is the engine's creation counter; it is returned with the
  result, also when construction fails.
\<close>

definition conv_table :: "bool \<Rightarrow> conv_class list" where
  "conv_table transposed =
     (if transposed then [ConvTranspose1d, ConvTranspose2d, ConvTranspose3d]
      else [Conv1d, Conv2d, Conv3d])"

definition expected_msg :: "bool \<Rightarrow> string \<Rightarrow> string" where
  "expected_msg transposed what =
     (if transposed then ''4D '' else ''nD '') @ what @ '' size expected!''"

function Nd_init ::
  "bool \<Rightarrow> 'a engine \<Rightarrow> 'a init_args \<Rightarrow> nat \<Rightarrow> (error + 'a ndconv) \<times> nat" where
  "Nd_init transposed eng a n =
     (let kernel_size = as_tuple (kernel_size a) (num_dims a);
          stride = as_tuple (stride a) (num_dims a);
          padding = as_tuple (padding a) (num_dims a);
          max_dims = num_dims a - 1
      in case py_index (conv_table transposed) (max_dims - 1) of
           Inl e \<Rightarrow> (Inl e, n)
         | Inr conv_f \<Rightarrow>
             if int (length kernel_size) \<noteq> num_dims a
               then (Inl (AssertionError (expected_msg transposed ''kernel'')), n)
             else if int (length stride) \<noteq> num_dims a
               then (Inl (AssertionError (expected_msg transposed ''stride'')), n)
             else if int (length padding) \<noteq> num_dims a
               then (Inl (AssertionError (expected_msg transposed ''padding'')), n)
             else if dilation a \<noteq> 1
               then (Inl (AssertionError ''Dilation rate other than 1 not yet implemented!''), n)
             else
               let bias = (if use_bias a
                           then Some (tabulate [out_channels a] (default_bias eng n))
                           else None);
                   bias = (case bias_initializer a of
                             None \<Rightarrow> bias
                           | Some f \<Rightarrow> if use_bias a then map_option (fill_in_place f) bias else bias)
               in case py_index kernel_size 0 of
                    Inl e \<Rightarrow> (Inl e, n)
                  | Inr next_dim_len \<Rightarrow>
                      (case build_layers (nat next_dim_len)
                              (\<lambda>m. if num_dims a - 1 \<noteq> max_dims
                                   then (case Nd_init transposed eng
                                                \<lparr>in_channels = in_channels a,
                                                 out_channels = out_channels a,
                                                 num_dims = num_dims a - 1,
                                                 kernel_size = Tup (drop 1 kernel_size),
                                                 stride = Tup (drop 1 stride),
                                                 padding = Tup (drop 1 padding),
                                                 padding_mode = padding_mode a,
                                                 dilation = 1,
                                                 groups = groups a,
                                                 rank = rank a - 1,
                                                 use_bias = use_bias a,
                                                 bias_initializer = None,
                                                 kernel_initializer = None\<rparr> m of
                                           (Inl e, m') \<Rightarrow> (Inl e, m')
                                         | (Inr c, m') \<Rightarrow>
                                             (case kernel_initializer a of
                                                None \<Rightarrow> (Inr (Sub c), m')
                                              | Some f \<Rightarrow> (Inl AttributeError, m')))
                                   else (case nn_Conv eng conv_f (in_channels a) (out_channels a)
                                                False (drop 1 kernel_size) (drop 1 stride)
                                                (drop 1 padding) (padding_mode a) (groups a) m of
                                           (Inl e, m') \<Rightarrow> (Inl e, m')
                                         | (Inr p, m') \<Rightarrow>
                                             (Inr (Base (case kernel_initializer a of
                                                           None \<Rightarrow> p
                                                         | Some f \<Rightarrow> p\<lparr>p_weight := fill_in_place f (p_weight p)\<rparr>)),
                                              m')))
                              n of
                         (Inl e, n') \<Rightarrow> (Inl e, n')
                       | (Inr layers, n') \<Rightarrow>
                           (Inr (NdConv (rank a) (in_channels a) (out_channels a) (num_dims a)
                                   kernel_size stride padding (padding_mode a) (groups a)
                                   (use_bias a) bias layers),
                            n')))"
  by pat_completeness (simp only: prod.inject)
termination
  by (relation "{}") auto

declare Nd_init.simps [simp del]

definition ConvNd_init :: "'a engine \<Rightarrow> 'a init_args \<Rightarrow> nat \<Rightarrow> (error + 'a ndconv) \<times> nat" where
  "ConvNd_init = Nd_init False"

definition ConvTransposeNd_init ::
  "'a engine \<Rightarrow> 'a init_args \<Rightarrow> nat \<Rightarrow> (error + 'a ndconv) \<times> nat" where
  "ConvTransposeNd_init = Nd_init True"

section \<open>The tensor engine: operations used by the forward passes\<close>

text \<open>
  Modelled from the spec: the operations below belong to the tensor engine (reshaping,
  padding, slicing, stacking, element-wise addition, zero-fill and the base convolutions),
  which is not part of the repository. Each one fails with the engine's \<open>RuntimeError\<close>
  (or Python's \<open>IndexError\<close>) where the engine refuses its arguments.
\<close>

text \<open>
  \<^verbatim>\<open>t.view(sh)\<close>: the same elements under another shape; one entry of \<open>sh\<close> may be \<open>-1\<close>
  and is then inferred from the number of elements.
\<close>

definition view :: "'a tensor \<Rightarrow> int list \<Rightarrow> error + 'a tensor" where
  "view t sh =
     (let numel = length (data t)
      in if (\<exists>d \<in> set sh. d < -1) \<or> 1 < length (filter (\<lambda>d. d = -1) sh) then Inl RuntimeError
         else if -1 \<in> set sh then
           (let p = prod_list (map nat (filter (\<lambda>d. d \<noteq> -1) sh))
            in if p = 0 \<or> numel mod p \<noteq> 0 then Inl RuntimeError
               else Inr \<lparr>shape = map (\<lambda>d. if d = -1 then numel div p else nat d) sh,
                         data = data t\<rparr>)
         else if prod_list (map nat sh) \<noteq> numel then Inl RuntimeError
         else Inr \<lparr>shape = map nat sh, data = data t\<rparr>)"

text \<open>
  Padding along one axis of length \<open>d\<close>: the source coordinate of the padded coordinate
  \<open>t\<close> (counted from the start of the unpadded axis), or \<open>None\<close> where the padding is the
  constant zero.
\<close>

definition pad_src :: "string \<Rightarrow> nat \<Rightarrow> int \<Rightarrow> nat option" where
  "pad_src mode d t =
     (if 0 \<le> t \<and> t < int d then Some (nat t)
      else if mode = ''reflect'' then Some (nat (if t < 0 then - t else 2 * (int d - 1) - t))
      else if mode = ''replicate'' then Some (if t < 0 then 0 else d - 1)
      else if mode = ''circular'' then Some (nat (t mod int d))
      else None)"

definition pad_ok :: "string \<Rightarrow> nat \<Rightarrow> int \<Rightarrow> int \<Rightarrow> bool" where
  "pad_ok mode d lo hi =
     (0 \<le> int d + lo + hi \<and>
      (mode = ''reflect'' \<longrightarrow> lo < int d \<and> hi < int d) \<and>
      (mode = ''replicate'' \<longrightarrow> 0 < d) \<and>
      (mode = ''circular'' \<longrightarrow> lo \<le> int d \<and> hi \<le> int d))"

text \<open>\<^verbatim>\<open>F.pad(t, (l, r, tp, bt), mode)\<close> on a 4-dimensional tensor: the last two axes.\<close>

definition F_pad :: "'a::zero tensor \<Rightarrow> int \<times> int \<times> int \<times> int \<Rightarrow> string \<Rightarrow> error + 'a tensor" where
  "F_pad t padSize mode =
     (case padSize of (l, r, tp, bt) \<Rightarrow>
        (case shape t of
           [b, c, h, w] \<Rightarrow>
             if pad_ok mode w l r \<and> pad_ok mode h tp bt
             then Inr (tabulate [b, c, nat (int h + tp + bt), nat (int w + l + r)]
                        (\<lambda>idx. case (pad_src mode h (int (idx ! 2) - tp),
                                     pad_src mode w (int (idx ! 3) - l)) of
                                 (Some y, Some x) \<Rightarrow> elem t [idx ! 0, idx ! 1, y, x]
                               | _ \<Rightarrow> 0))
             else Inl RuntimeError
         | _ \<Rightarrow> Inl RuntimeError))"

text \<open>\<^verbatim>\<open>t[:, :, j, :]\<close> on a 4-dimensional tensor.\<close>

definition select2 :: "'a tensor \<Rightarrow> nat \<Rightarrow> error + 'a tensor" where
  "select2 t j =
     (case shape t of
        [b, c, d, w] \<Rightarrow>
          if j < d then Inr (tabulate [b, c, w] (\<lambda>idx. elem t [idx ! 0, idx ! 1, j, idx ! 2]))
          else Inl IndexError
      | _ \<Rightarrow> Inl IndexError)"

text \<open>\<^verbatim>\<open>torch.zeros(sh)\<close>.\<close>

definition torch_zeros :: "int list \<Rightarrow> error + 'a::zero tensor" where
  "torch_zeros sh =
     (if \<exists>d \<in> set sh. d < 0 then Inl RuntimeError
      else Inr (tabulate (map nat sh) (\<lambda>_. 0)))"

text \<open>
  \<^verbatim>\<open>s += t\<close> on tensors. Frames of different shapes are refused (broadcasting between
  frames is not modelled; all children of an operator have the same configuration).
\<close>

definition iadd :: "'a::plus tensor \<Rightarrow> 'a tensor \<Rightarrow> error + 'a tensor" where
  "iadd s t =
     (if shape s = shape t
      then Inr \<lparr>shape = shape s, data = map (\<lambda>(x, y). x + y) (zip (data s) (data t))\<rparr>
      else Inl RuntimeError)"

text \<open>\<^verbatim>\<open>torch.stack(ts, dim=2)\<close>.\<close>

definition torch_stack :: "'a tensor list \<Rightarrow> error + 'a tensor" where
  "torch_stack ts =
     (case ts of
        [] \<Rightarrow> Inl RuntimeError
      | t # _ \<Rightarrow>
          if (\<forall>u \<in> set ts. shape u = shape t) \<and> 2 \<le> length (shape t)
          then Inr (tabulate (take 2 (shape t) @ [length ts] @ drop 2 (shape t))
                     (\<lambda>idx. elem (ts ! (idx ! 2)) (take 2 idx @ drop 3 idx)))
          else Inl RuntimeError)"

text \<open>\<^verbatim>\<open>r[:, k, :] += v\<close> on a 3-dimensional tensor, and \<^verbatim>\<open>bias[k]\<close>.\<close>

definition add_channel :: "'a::plus tensor \<Rightarrow> nat \<Rightarrow> 'a \<Rightarrow> error + 'a tensor" where
  "add_channel r k v =
     (case shape r of
        [b, c, m] \<Rightarrow>
          if k < c
          then Inr (tabulate [b, c, m] (\<lambda>idx. if idx ! 1 = k then elem r idx + v else elem r idx))
          else Inl IndexError
      | _ \<Rightarrow> Inl IndexError)"

definition bias_at :: "'a tensor \<Rightarrow> nat \<Rightarrow> error + 'a" where
  "bias_at bt k =
     (case shape bt of
        [n] \<Rightarrow> if k < n \<and> k < length (data bt) then Inr (data bt ! k) else Inl IndexError
      | _ \<Rightarrow> Inl RuntimeError)"

subsection \<open>Forward pass of the base primitives\<close>

fun sum_over :: "nat list \<Rightarrow> (nat list \<Rightarrow> 'a::comm_monoid_add) \<Rightarrow> 'a" where
  "sum_over [] f = f []"
| "sum_over (n # ns) f = sum_list (map (\<lambda>i. sum_over ns (\<lambda>js. f (i # js))) [0..<n])"

text \<open>
  Element \<open>(ib, c, ts)\<close> of the input padded according to \<open>mode\<close>; \<open>ts\<close> are coordinates
  relative to the unpadded input.
\<close>

definition read_padded :: "string \<Rightarrow> 'a::zero tensor \<Rightarrow> nat \<Rightarrow> nat \<Rightarrow> int list \<Rightarrow> 'a" where
  "read_padded mode x ib c ts =
     (let srcs = map (\<lambda>(d, t). pad_src mode d t) (zip (drop 2 (shape x)) ts)
      in if None \<in> set srcs then 0 else elem x (ib # c # map the srcs))"

definition weight_shape :: "'a conv_prim \<Rightarrow> nat list" where
  "weight_shape p =
     (if class_transposed (p_class p)
      then [p_in_channels p, p_out_channels p div p_groups p]
      else [p_out_channels p, p_in_channels p div p_groups p]) @ map nat (p_kernel_size p)"

definition bias_term :: "'a::zero conv_prim \<Rightarrow> nat \<Rightarrow> 'a" where
  "bias_term p co = (case p_bias p of None \<Rightarrow> 0 | Some bt \<Rightarrow> elem bt [co])"

text \<open>
  Modelled from the spec: the base convolution of \<open>n\<close> spatial dimensions (dilation 1) is
  the cross-correlation
  \<open>out[ib, co, o] = bias[co] + \<Sum> ci k. weight[co, ci, k] * padded_input[ib, ci', o * stride + k]\<close>
  with output length \<open>floor((d + 2 * pad - k) / stride) + 1\<close> along every axis; \<open>ci'\<close> is the
  input channel \<open>ci\<close> of the group of \<open>co\<close>.
\<close>

definition conv_out :: "'a::comm_semiring_0 conv_prim \<Rightarrow> 'a tensor \<Rightarrow> nat list \<Rightarrow> 'a" where
  "conv_out p x idx =
     (let n = class_dims (p_class p); g = p_groups p;
          cin_g = p_in_channels p div g; cout_g = p_out_channels p div g;
          ib = idx ! 0; co = idx ! 1; os = drop 2 idx
      in bias_term p co +
         sum_list (map (\<lambda>ci. sum_over (map nat (p_kernel_size p))
                         (\<lambda>kk. elem (p_weight p) (co # ci # kk) *
                               read_padded (p_padding_mode p) x ib ((co div cout_g) * cin_g + ci)
                                 (map (\<lambda>a. int (os ! a) * p_stride p ! a + int (kk ! a)
                                           - p_padding p ! a) [0..<n])))
                   [0..<cin_g]))"

text \<open>
  Modelled from the spec: the base transposed convolution (dilation 1, no output padding)
  scatters \<open>weight[ci, co, k] * input[ib, ci, j]\<close> to the output position
  \<open>j * stride + k - pad\<close>; its output length is \<open>(d - 1) * stride - 2 * pad + k\<close>.
\<close>

definition conv_transpose_out :: "'a::comm_semiring_0 conv_prim \<Rightarrow> 'a tensor \<Rightarrow> nat list \<Rightarrow> 'a" where
  "conv_transpose_out p x idx =
     (let n = class_dims (p_class p); g = p_groups p;
          cin_g = p_in_channels p div g; cout_g = p_out_channels p div g;
          ib = idx ! 0; co = idx ! 1; os = drop 2 idx; size_i = drop 2 (shape x)
      in bias_term p co +
         sum_list (map (\<lambda>ci'. sum_over (map nat (p_kernel_size p))
                         (\<lambda>kk. let ci = (co div cout_g) * cin_g + ci';
                                   ts = map (\<lambda>a. int (os ! a) + p_padding p ! a - int (kk ! a))
                                          [0..<n]
                               in if \<forall>a \<in> set [0..<n].
                                       0 \<le> ts ! a \<and> ts ! a mod (p_stride p ! a) = 0 \<and>
                                       ts ! a div (p_stride p ! a) < int (size_i ! a)
                                  then elem (p_weight p) (ci # (co mod cout_g) # kk) *
                                       elem x (ib # ci #
                                         map (\<lambda>a. nat (ts ! a div (p_stride p ! a))) [0..<n])
                                  else 0))
                   [0..<cin_g]))"

definition conv_forward :: "'a::comm_semiring_0 conv_prim \<Rightarrow> 'a tensor \<Rightarrow> error + 'a tensor" where
  "conv_forward p x =
     (let n = class_dims (p_class p); ks = p_kernel_size p; st = p_stride p; pd = p_padding p;
          size_i = drop 2 (shape x)
      in if length (shape x) \<noteq> n + 2 \<or> length ks \<noteq> n \<or> length st \<noteq> n \<or> length pd \<noteq> n
           then Inl RuntimeError
         else if shape x ! 1 \<noteq> p_in_channels p \<or> p_groups p = 0 then Inl RuntimeError
         else if shape (p_weight p) \<noteq> weight_shape p \<or> \<not> wf_tensor (p_weight p)
           then Inl RuntimeError
         else if (case p_bias p of None \<Rightarrow> False
                  | Some bt \<Rightarrow> shape bt \<noteq> [p_out_channels p] \<or> \<not> wf_tensor bt)
           then Inl RuntimeError
         else if (\<exists>s \<in> set st. s \<le> 0) \<or> (\<exists>q \<in> set pd. q < 0) \<or> (\<exists>k \<in> set ks. k \<le> 0)
           then Inl RuntimeError
         else if class_transposed (p_class p) then
           (let size_o = map (\<lambda>a. (int (size_i ! a) - 1) * st ! a - 2 * pd ! a + ks ! a) [0..<n]
            in if p_padding_mode p \<noteq> ''zeros'' \<or> (\<exists>d \<in> set size_o. d \<le> 0) then Inl RuntimeError
               else Inr (tabulate (shape x ! 0 # p_out_channels p # map nat size_o)
                          (conv_transpose_out p x)))
         else
           (let size_o = map (\<lambda>a. (int (size_i ! a) + 2 * pd ! a - ks ! a) div st ! a + 1) [0..<n]
            in if \<exists>a \<in> set [0..<n]. \<not> pad_ok (p_padding_mode p) (size_i ! a) (pd ! a) (pd ! a)
                 then Inl RuntimeError
               else if \<exists>a \<in> set [0..<n]. int (size_i ! a) + 2 * pd ! a < ks ! a
                 then Inl RuntimeError
               else Inr (tabulate (shape x ! 0 # p_out_channels p # map nat size_o)
                          (conv_out p x))))"

section \<open>The forward passes\<close>

text \<open>A \<^verbatim>\<open>for\<close> loop over a range with a body that may raise: the first error ends it.\<close>

fun for_loop :: "'x list \<Rightarrow> ('x \<Rightarrow> 's \<Rightarrow> error + 's) \<Rightarrow> 's \<Rightarrow> error + 's" where
  "for_loop [] body s = Inr s"
| "for_loop (x # xs) body s =
     (case body x s of Inl e \<Rightarrow> Inl e | Inr s' \<Rightarrow> for_loop xs body s')"

text \<open>A list comprehension \<^verbatim>\<open>[f(x) for x in range(n)]\<close> whose elements may raise.\<close>

fun collect :: "(error + 'b) list \<Rightarrow> error + 'b list" where
  "collect [] = Inr []"
| "collect (r # rs) =
     (case r of
        Inl e \<Rightarrow> Inl e
      | Inr v \<Rightarrow> (case collect rs of Inl e \<Rightarrow> Inl e | Inr vs \<Rightarrow> Inr (v # vs)))"

definition list_comp :: "nat \<Rightarrow> (nat \<Rightarrow> error + 'b) \<Rightarrow> error + 'b list" where
  "list_comp n f = collect (map f [0..<n])"

text \<open>
  The part of the loop body that both forward passes share, after the test that skips a
  pair \<open>(i, j)\<close>: slice the input at position \<open>j\<close> of the leading spatial axis, apply child
  \<open>i\<close> and store the result in frame \<open>out_frame\<close> (the first write assigns, later writes
  add in place). The state is \<^verbatim>\<open>(frame_results, empty_frames)\<close>.
\<close>

definition convolve_frame ::
  "('a::plus tensor \<Rightarrow> error + 'a tensor) list \<Rightarrow> 'a tensor \<Rightarrow> nat \<Rightarrow> nat \<Rightarrow> nat list \<Rightarrow>
   nat \<Rightarrow> nat \<Rightarrow> nat \<Rightarrow> 'a tensor list \<times> int option list \<Rightarrow>
   error + 'a tensor list \<times> int option list" where
  "convolve_frame layers input b c_i size_i i j out_frame st =
     (case st of (frame_results, empty_frames) \<Rightarrow>
        (case view input [int b, int c_i, int (size_i ! 0), -1] of
           Inl e \<Rightarrow> Inl e
         | Inr conv_input \<Rightarrow>
        (case select2 conv_input j of
           Inl e \<Rightarrow> Inl e
         | Inr conv_input \<Rightarrow>
        (case view conv_input (int b # int c_i # map int (drop 1 size_i)) of
           Inl e \<Rightarrow> Inl e
         | Inr conv_input \<Rightarrow>
        (case py_index layers (int i) of
           Inl e \<Rightarrow> Inl e
         | Inr layer \<Rightarrow>
        (case layer conv_input of
           Inl e \<Rightarrow> Inl e
         | Inr frame_conv \<Rightarrow>
             if empty_frames ! out_frame = None
             then Inr (frame_results[out_frame := frame_conv],
                       empty_frames[out_frame := Some 1])
             else (case iadd (frame_results ! out_frame) frame_conv of
                     Inl e \<Rightarrow> Inl e
                   | Inr s \<Rightarrow> Inr (frame_results[out_frame := s], empty_frames))))))))"

text \<open>
  The end of both forward passes: stack the frames along axis 2 and, with \<^verbatim>\<open>use_bias\<close>,
  add \<^verbatim>\<open>bias[k]\<close> to channel \<open>k\<close> of the flattened result.
\<close>

definition stack_and_bias :: "'a::plus ndconv \<Rightarrow> nat \<Rightarrow> 'a tensor list \<Rightarrow> error + 'a tensor" where
  "stack_and_bias self b frame_results =
     (case torch_stack frame_results of
        Inl e \<Rightarrow> Inl e
      | Inr result \<Rightarrow>
          if self_use_bias self then
            (let resultShape = shape result
             in case view result [int b, int (resultShape ! 1), -1] of
                  Inl e \<Rightarrow> Inl e
                | Inr result \<Rightarrow>
                    (case for_loop [0..<self_out_channels self]
                            (\<lambda>k result.
                               if shape result ! 1 \<le> k then Inl IndexError
                               else (case self_bias self of
                                       None \<Rightarrow> Inl TypeError
                                     | Some bt \<Rightarrow>
                                         (case bias_at bt k of
                                            Inl e \<Rightarrow> Inl e
                                          | Inr v \<Rightarrow> add_channel result k v)))
                            result of
                       Inl e \<Rightarrow> Inl e
                     | Inr result \<Rightarrow> view result (map int resultShape)))
          else Inr result)"

text \<open>
  \<^verbatim>\<open>ConvNd.forward\<close>, with the children given as functions. \<^verbatim>\<open>math.floor(a / s + 1)\<close>
  and \<^verbatim>\<open>math.floor(a / s)\<close> on integers are the floor division of \<open>int\<close> (exact for
  every tensor size a float represents); \<^verbatim>\<open>%\<close> is \<open>mod\<close> on \<open>int\<close>.
\<close>

definition ConvNd_apply ::
  "'a::comm_semiring_0 ndconv \<Rightarrow> ('a tensor \<Rightarrow> error + 'a tensor) list \<Rightarrow> 'a tensor \<Rightarrow>
   error + 'a tensor" where
  "ConvNd_apply self layers input =
     (case (if self_rank self = 0 then
              (case py_index (shape input) 2 of
                 Inl e \<Rightarrow> Inl e
               | Inr s2 \<Rightarrow>
              (case py_index (self_padding self) 0 of
                 Inl e \<Rightarrow> Inl e
               | Inr p0 \<Rightarrow>
                   let inputShape = (map int (shape input))[2 := int s2 + 2 * p0];
                       padSize = (0, 0, p0, p0);
                       padding = (self_padding self)[0 := 0]
                   in (case view input [int (shape input ! 0), int (shape input ! 1),
                                        int (shape input ! 2), -1] of
                         Inl e \<Rightarrow> Inl e
                       | Inr v \<Rightarrow>
                      (case F_pad v padSize
                              (if self_padding_mode self = ''zeros'' then ''constant''
                               else ''reflect'') of
                         Inl e \<Rightarrow> Inl e
                       | Inr v \<Rightarrow>
                      (case view v inputShape of
                         Inl e \<Rightarrow> Inl e
                       | Inr input \<Rightarrow> Inr (padding, input))))))
            else Inr (self_padding self, input)) of
        Inl e \<Rightarrow> Inl e
      | Inr padded \<Rightarrow>
          (case shape (snd padded) of
             b # c_i # size_i \<Rightarrow>
               let padding = fst padded; input = snd padded;
                   size_k = self_kernel_size self; stride = self_stride self
               in (case list_comp (length size_i)
                         (\<lambda>x. case py_index padding (int x) of
                                Inl e \<Rightarrow> Inl e
                              | Inr p \<Rightarrow>
                             (case py_index size_k (int x) of
                                Inl e \<Rightarrow> Inl e
                              | Inr k \<Rightarrow>
                             (case py_index stride (int x) of
                                Inl e \<Rightarrow> Inl e
                              | Inr s \<Rightarrow>
                                  if s = 0 then Inl ZeroDivisionError
                                  else Inr ((int (size_i ! x) + 2 * p - k) div s + 1)))) of
                     Inl e \<Rightarrow> Inl e
                   | Inr size_o \<Rightarrow>
                       let size_ons = map (\<lambda>x. int (size_i ! x) - size_k ! x + 1)
                                        [0..<length size_i]
                       in (case py_index size_o 0 of
                             Inl e \<Rightarrow> Inl e
                           | Inr size_o0 \<Rightarrow>
                          (case torch_zeros (int b # int (self_out_channels self) # drop 1 size_o) of
                             Inl e \<Rightarrow> Inl e
                           | Inr z \<Rightarrow>
                               let frame_results = replicate (nat size_o0) z;
                                   empty_frames = replicate (nat size_o0) None
                               in (case for_loop [0..<nat (size_k ! 0)]
                                         (\<lambda>i. for_loop [0..<size_i ! 0]
                                            (\<lambda>j st.
                                               let out_frame = int j - (int i - size_k ! 0 div 2)
                                                     - (int (size_i ! 0) - size_ons ! 0) div 2
                                                     - (1 - size_k ! 0 mod 2);
                                                   k_center_position = out_frame mod stride ! 0;
                                                   out_frame = out_frame div stride ! 0
                                               in if out_frame < 0 \<or> size_o0 \<le> out_frame
                                                     \<or> k_center_position \<noteq> 0
                                                  then Inr st
                                                  else convolve_frame layers input b c_i size_i
                                                         i j (nat out_frame) st))
                                         (frame_results, empty_frames) of
                                     Inl e \<Rightarrow> Inl e
                                   | Inr (frame_results, empty_frames) \<Rightarrow>
                                       stack_and_bias self b frame_results))))
           | _ \<Rightarrow> Inl ValueError))"

text \<open>
  Modelled from the spec: the engine places every tensor on a device. The device is tracked
  beside the values: the run-time environment says whether a CUDA device is available and
  on which device the input lives. Every tensor computed from the input (a view, a slice,
  the result of a child) lives on the device of the input; \<^verbatim>\<open>t.cuda()\<close> moves \<open>t\<close> to the CUDA
  device and raises when there is none; stacking tensors that live on different devices
  raises.
\<close>

datatype device = CPU | CUDA

record runtime =
  cuda_available :: bool
  input_device :: device

definition cuda :: "runtime \<Rightarrow> 'a tensor \<Rightarrow> error + 'a tensor" where
  "cuda rt t = (if cuda_available rt then Inr t else Inl RuntimeError)"

text \<open>
  The devices of the frames after the loop: a frame that was never written is still the
  zero tensor that \<^verbatim>\<open>.cuda()\<close> placed on the CUDA device, a written frame is the result of a
  child.
\<close>

definition frame_devices :: "runtime \<Rightarrow> int option list \<Rightarrow> device list" where
  "frame_devices rt empty_frames =
     map (\<lambda>e. if e = None then CUDA else input_device rt) empty_frames"

definition same_device :: "device list \<Rightarrow> bool" where
  "same_device ds = list_all (\<lambda>d. d = hd ds) ds"

text \<open>
  \<^verbatim>\<open>ConvTransposeNd.forward\<close>. There is no padding of the input. The zero frames are created
  on the CUDA device whatever the device of the input is (in \<^verbatim>\<open>ConvNd.forward\<close> they are
  created on the device of the input, so that all frames live there and no device error
  arises).
\<close>

definition ConvTransposeNd_apply ::
  "runtime \<Rightarrow> 'a::comm_semiring_0 ndconv \<Rightarrow> ('a tensor \<Rightarrow> error + 'a tensor) list \<Rightarrow> 'a tensor \<Rightarrow>
   error + 'a tensor" where
  "ConvTransposeNd_apply rt self layers input =
     (case shape input of
        b # c_i # size_i \<Rightarrow>
          let size_k = self_kernel_size self; stride = self_stride self;
              padding = self_padding self
          in (case list_comp (length size_i)
                    (\<lambda>x. case py_index stride (int x) of
                           Inl e \<Rightarrow> Inl e
                         | Inr s \<Rightarrow>
                        (case py_index padding (int x) of
                           Inl e \<Rightarrow> Inl e
                         | Inr p \<Rightarrow>
                        (case py_index size_k (int x) of
                           Inl e \<Rightarrow> Inl e
                         | Inr k \<Rightarrow>
                             Inr ((int (size_i ! x) - 1) * s - 2 * p + (k - 1) + 1)))) of
                Inl e \<Rightarrow> Inl e
              | Inr size_o \<Rightarrow>
                 (case py_index size_o 0 of
                    Inl e \<Rightarrow> Inl e
                  | Inr size_o0 \<Rightarrow>
                 (case torch_zeros (int b # int (self_out_channels self) # drop 1 size_o) of
                    Inl e \<Rightarrow> Inl e
                  | Inr z \<Rightarrow>
                 (case cuda rt z of
                    Inl e \<Rightarrow> Inl e
                  | Inr z \<Rightarrow>
                      let frame_results = replicate (nat size_o0) z;
                          empty_frames = replicate (nat size_o0) None
                      in (case for_loop [0..<nat (size_k ! 0)]
                                (\<lambda>i. for_loop [0..<size_i ! 0]
                                   (\<lambda>j st.
                                      let out_frame = (int i + size_k ! 0 div 2) + int j
                                            - size_k ! 0 div 2 - padding ! 0
                                      in if out_frame < 0 \<or> size_o0 \<le> out_frame
                                         then Inr st
                                         else convolve_frame layers input b c_i size_i
                                                i j (nat out_frame) st))
                                (frame_results, empty_frames) of
                            Inl e \<Rightarrow> Inl e
                          | Inr (frame_results, empty_frames) \<Rightarrow>
                              if same_device (frame_devices rt empty_frames)
                              then stack_and_bias self b frame_results
                              else Inl RuntimeError)))))
      | _ \<Rightarrow> Inl ValueError)"

text \<open>
  Calling a child: another operator instance runs its own forward pass, a base primitive
  the engine's.
\<close>

primrec ConvNd_forward :: "'a::comm_semiring_0 ndconv \<Rightarrow> 'a tensor \<Rightarrow> error + 'a tensor"
  and ConvNd_layer :: "'a::comm_semiring_0 layer \<Rightarrow> 'a tensor \<Rightarrow> error + 'a tensor" where
  "ConvNd_forward (NdConv rk cin cout nd ks st pd pm g ub bs layers) =
     ConvNd_apply (NdConv rk cin cout nd ks st pd pm g ub bs layers) (map ConvNd_layer layers)"
| "ConvNd_layer (Sub c) = ConvNd_forward c"
| "ConvNd_layer (Base p) = conv_forward p"

primrec ConvTransposeNd_forward ::
    "runtime \<Rightarrow> 'a::comm_semiring_0 ndconv \<Rightarrow> 'a tensor \<Rightarrow> error + 'a tensor"
  and ConvTransposeNd_layer ::
    "runtime \<Rightarrow> 'a::comm_semiring_0 layer \<Rightarrow> 'a tensor \<Rightarrow> error + 'a tensor" where
  "ConvTransposeNd_forward rt (NdConv rk cin cout nd ks st pd pm g ub bs layers) =
     ConvTransposeNd_apply rt (NdConv rk cin cout nd ks st pd pm g ub bs layers)
       (map (ConvTransposeNd_layer rt) layers)"
| "ConvTransposeNd_layer rt (Sub c) = ConvTransposeNd_forward rt c"
| "ConvTransposeNd_layer rt (Base p) = conv_forward p"

section \<open>Concrete operators and inputs\<close>

definition unit_engine :: "int engine" where
  "unit_engine = \<lparr>default_weight = (\<lambda>_ _. 1), default_bias = (\<lambda>_ _. 0)\<rparr>"

definition example_args :: "int \<Rightarrow> int init_args" where
  "example_args d =
     \<lparr>in_channels = 1, out_channels = 1, num_dims = d, kernel_size = Scalar 2,
      stride = Scalar 1, padding = Scalar 0, padding_mode = ''zeros'', dilation = 1,
      groups = 1, rank = 0, use_bias = True, bias_initializer = None,
      kernel_initializer = None\<rparr>"

definition ones :: "nat list \<Rightarrow> int tensor" where
  "ones sh = tabulate sh (\<lambda>_. 1)"

definition example_op :: "int \<Rightarrow> int ndconv" where
  "example_op d = projr (fst (ConvNd_init unit_engine (example_args d) 0))"

definition example_transpose_op :: "int \<Rightarrow> int ndconv" where
  "example_transpose_op d = projr (fst (ConvTransposeNd_init unit_engine (example_args d) 0))"

definition gpu_runtime :: runtime where
  "gpu_runtime = \<lparr>cuda_available = True, input_device = CUDA\<rparr>"

definition cpu_runtime :: runtime where
  "cpu_runtime = \<lparr>cuda_available = False, input_device = CPU\<rparr>"

section \<open>Valid configurations and valid inputs\<close>

text \<open>
  A configuration the decomposition is written for: one leading axis and one to three
  trailing axes (for which a base primitive exists), kernel sizes and strides at least 1,
  non-negative padding, at least one output channel.
\<close>

definition valid_config :: "'a ndconv \<Rightarrow> bool" where
  "valid_config op \<longleftrightarrow>
     2 \<le> self_num_dims op \<and> self_num_dims op \<le> 4 \<and>
     list_all (\<lambda>k. 1 \<le> k) (self_kernel_size op) \<and>
     list_all (\<lambda>s. 1 \<le> s) (self_stride op) \<and>
     list_all (\<lambda>q. 0 \<le> q) (self_padding op) \<and>
     0 < self_out_channels op"

text \<open>
  An input of shape \<open>(batch, in_channels, dim_0, ..., dim_{num_dims-1})\<close> without an empty
  axis.
\<close>

definition valid_shape :: "'a ndconv \<Rightarrow> 'a tensor \<Rightarrow> bool" where
  "valid_shape op x \<longleftrightarrow>
     wf_tensor x \<and> int (length (shape x)) = self_num_dims op + 2 \<and>
     list_all (\<lambda>d. 0 < d) (shape x) \<and> shape x ! 1 = self_in_channels op"

text \<open>
  For \<^verbatim>\<open>ConvNd\<close> the padded input is at least as long as the kernel along every axis, and
  with a padding mode other than \<^verbatim>\<open>'zeros'\<close> the padding is shorter than the axis (the
  engine refuses to reflect further). For \<^verbatim>\<open>ConvTransposeNd\<close> the output extent is
  positive along every axis.
\<close>

definition ConvNd_valid_input :: "'a ndconv \<Rightarrow> 'a tensor \<Rightarrow> bool" where
  "ConvNd_valid_input op x \<longleftrightarrow>
     valid_shape op x \<and>
     list_all (\<lambda>k. self_kernel_size op ! k \<le> int (shape x ! (k + 2)) + 2 * self_padding op ! k \<and>
                    (self_padding_mode op \<noteq> ''zeros'' \<longrightarrow>
                       self_padding op ! k < int (shape x ! (k + 2))))
       [0..<length (shape x) - 2]"

definition ConvTransposeNd_valid_input :: "'a ndconv \<Rightarrow> 'a tensor \<Rightarrow> bool" where
  "ConvTransposeNd_valid_input op x \<longleftrightarrow>
     valid_shape op x \<and>
     list_all (\<lambda>k. 1 \<le> (int (shape x ! (k + 2)) - 1) * self_stride op ! k
                          - 2 * self_padding op ! k + self_kernel_size op ! k)
       [0..<length (shape x) - 2]"

section \<open>Concrete operators with stride and padding\<close>

definition strided_args :: "int \<Rightarrow> int init_args" where
  "strided_args d =
     \<lparr>in_channels = 1, out_channels = 1, num_dims = d, kernel_size = Scalar 2,
      stride = Scalar 2, padding = Scalar 1, padding_mode = ''zeros'', dilation = 1,
      groups = 1, rank = 0, use_bias = True, bias_initializer = None,
      kernel_initializer = None\<rparr>"

definition strided_op :: "int \<Rightarrow> int ndconv" where
  "strided_op d = projr (fst (ConvNd_init unit_engine (strided_args d) 0))"

definition strided_transpose_op :: "int \<Rightarrow> int ndconv" where
  "strided_transpose_op d = projr (fst (ConvTransposeNd_init unit_engine (strided_args d) 0))"

text \<open>The base one-dimensional primitive with kernel 2, stride 1 and no padding.\<close>

definition direct_conv1d :: "int conv_prim" where
  "direct_conv1d = projr (fst (nn_Conv unit_engine Conv1d 1 1 True [2] [1] [0] ''zeros'' 1 0))"

text \<open>
  The message of the first configuration assertion of a constructor that fails, in the
  order of the source: kernel, stride, padding, dilation.
\<close>

definition config_error :: "bool \<Rightarrow> 'a init_args \<Rightarrow> string" where
  "config_error transposed a =
     (if int (length (as_tuple (kernel_size a) (num_dims a))) \<noteq> num_dims a
        then expected_msg transposed ''kernel''
      else if int (length (as_tuple (stride a) (num_dims a))) \<noteq> num_dims a
        then expected_msg transposed ''stride''
      else if int (length (as_tuple (padding a) (num_dims a))) \<noteq> num_dims a
        then expected_msg transposed ''padding''
      else ''Dilation rate other than 1 not yet implemented!'')"

definition misconfigured :: "'a init_args \<Rightarrow> bool" where
  "misconfigured a \<longleftrightarrow>
     int (length (as_tuple (kernel_size a) (num_dims a))) \<noteq> num_dims a \<or>
     int (length (as_tuple (stride a) (num_dims a))) \<noteq> num_dims a \<or>
     int (length (as_tuple (padding a) (num_dims a))) \<noteq> num_dims a \<or>
     dilation a \<noteq> 1"

definition short_kernel_args :: "int \<Rightarrow> int init_args" where
  "short_kernel_args d = (example_args d)\<lparr>kernel_size := Tup (replicate (nat (d - 1)) 2)\<rparr>"

text \<open>The same operator with its bias switched off, and an operator whose weights are zero.\<close>

definition without_bias :: "'a ndconv \<Rightarrow> 'a ndconv" where
  "without_bias op =
     NdConv (self_rank op) (self_in_channels op) (self_out_channels op) (self_num_dims op)
       (self_kernel_size op) (self_stride op) (self_padding op) (self_padding_mode op)
       (self_groups op) False None (self_conv_layers op)"

definition zero_weights :: "'a::zero ndconv \<Rightarrow> bool" where
  "zero_weights op \<longleftrightarrow>
     list_all (\<lambda>l. list_all (\<lambda>v. v = 0) (data (p_weight (the_prim l)))) (self_conv_layers op)"

text \<open>
  Construction arguments with two output channels, stride 2 and padding 1, a kernel
  initializer that writes zeros and a bias initializer that writes 5 and 6.
\<close>

definition zero_weight_args :: "int init_args" where
  "zero_weight_args =
     \<lparr>in_channels = 1, out_channels = 2, num_dims = 2, kernel_size = Scalar 2,
      stride = Scalar 2, padding = Scalar 1, padding_mode = ''zeros'', dilation = 1,
      groups = 1, rank = 0, use_bias = True,
      bias_initializer = Some (\<lambda>_ idx. 5 + int (hd idx)),
      kernel_initializer = Some (\<lambda>_ _. 0)\<rparr>"

definition zero_weight_op :: "int ndconv" where
  "zero_weight_op = projr (fst (ConvNd_init unit_engine zero_weight_args 0))"

definition zero_weight_transpose_op :: "int ndconv" where
  "zero_weight_transpose_op = projr (fst (ConvTransposeNd_init unit_engine zero_weight_args 0))"

text \<open>
  The base primitive of \<^verbatim>\<open>num_dims\<close> dimensions with the configuration of the operator, whose
  weight is the stack of the weights of the children along the leading kernel axis and
  whose bias is the bias of the operator: the direct convolution that the decomposition
  stands for.
\<close>

definition stacked_weight :: "'a ndconv \<Rightarrow> 'a tensor" where
  "stacked_weight op =
     projr (torch_stack (map (\<lambda>l. p_weight (the_prim l)) (self_conv_layers op)))"

definition direct_prim :: "'a ndconv \<Rightarrow> 'a conv_prim" where
  "direct_prim op =
     \<lparr>p_class = [Conv1d, Conv2d, Conv3d] ! nat (self_num_dims op - 1),
      p_in_channels = self_in_channels op, p_out_channels = self_out_channels op,
      p_kernel_size = self_kernel_size op, p_stride = self_stride op,
      p_padding = self_padding op, p_padding_mode = self_padding_mode op,
      p_groups = self_groups op, p_weight = stacked_weight op, p_bias = self_bias op\<rparr>"

section \<open>Facts about construction\<close>

text \<open>
  The test \<^verbatim>\<open>self.num_dims-1 != max_dims\<close> compares \<^verbatim>\<open>num_dims - 1\<close> with itself, so the
  constructor is the following text, without the recursive branch.
\<close>

lemma Nd_init_unfold:
  "Nd_init transposed eng a n =
     (let kernel_size = as_tuple (kernel_size a) (num_dims a);
          stride = as_tuple (stride a) (num_dims a);
          padding = as_tuple (padding a) (num_dims a)
      in case py_index (conv_table transposed) (num_dims a - 2) of
           Inl e \<Rightarrow> (Inl e, n)
         | Inr conv_f \<Rightarrow>
             if int (length kernel_size) \<noteq> num_dims a
               then (Inl (AssertionError (expected_msg transposed ''kernel'')), n)
             else if int (length stride) \<noteq> num_dims a
               then (Inl (AssertionError (expected_msg transposed ''stride'')), n)
             else if int (length padding) \<noteq> num_dims a
               then (Inl (AssertionError (expected_msg transposed ''padding'')), n)
             else if dilation a \<noteq> 1
               then (Inl (AssertionError ''Dilation rate other than 1 not yet implemented!''), n)
             else
               case py_index kernel_size 0 of
                    Inl e \<Rightarrow> (Inl e, n)
                  | Inr next_dim_len \<Rightarrow>
                      (case build_layers (nat next_dim_len)
                              (\<lambda>m. case nn_Conv eng conv_f (in_channels a) (out_channels a)
                                                False (drop 1 kernel_size) (drop 1 stride)
                                                (drop 1 padding) (padding_mode a) (groups a) m of
                                           (Inl e, m') \<Rightarrow> (Inl e, m')
                                         | (Inr p, m') \<Rightarrow>
                                             (Inr (Base (case kernel_initializer a of
                                                           None \<Rightarrow> p
                                                         | Some f \<Rightarrow> p\<lparr>p_weight := fill_in_place f (p_weight p)\<rparr>)),
                                              m'))
                              n of
                         (Inl e, n') \<Rightarrow> (Inl e, n')
                       | (Inr layers, n') \<Rightarrow>
                           (Inr (NdConv (rank a) (in_channels a) (out_channels a) (num_dims a)
                                   kernel_size stride padding (padding_mode a) (groups a)
                                   (use_bias a)
                                   (case bias_initializer a of
                                      None \<Rightarrow> (if use_bias a
                                                then Some (tabulate [out_channels a] (default_bias eng n))
                                                else None)
                                    | Some f \<Rightarrow> (if use_bias a
                                                then Some (fill_in_place f (tabulate [out_channels a] (default_bias eng n)))
                                                else None))
                                   layers),
                            n')))"
  by (subst Nd_init.simps) (auto simp: Let_def split: sum.splits option.splits prod.splits)

lemma build_layers_0: "build_layers 0 mk n = (Inr [], n)"
  by (simp add: build_layers_def)

lemma build_layers_Suc:
  "build_layers (Suc k) mk n =
     (case build_layers k mk n of
        (Inl e, n') \<Rightarrow> (Inl e, n')
      | (Inr ls, n') \<Rightarrow>
          (case mk n' of
             (Inl e, n'') \<Rightarrow> (Inl e, n'')
           | (Inr l, n'') \<Rightarrow> (Inr (ls @ [l]), n'')))"
  by (simp add: build_layers_def)

lemma build_layers_Inr:
  "build_layers k mk n = (Inr ls, n') \<Longrightarrow>
   length ls = k \<and> (\<forall>l \<in> set ls. \<exists>m m'. mk m = (Inr l, m'))"
proof (induction k arbitrary: ls n')
  case 0
  then show ?case by (simp add: build_layers_0)
next
  case (Suc k)
  then show ?case
    by (fastforce simp: build_layers_Suc split: prod.splits sum.splits)
qed

lemma nn_Conv_Inr:
  assumes "nn_Conv eng cls cin cout wb ks st pd pm g n = (Inr p, m)"
  shows "p_class p = cls \<and> p_in_channels p = cin \<and> p_out_channels p = cout \<and>
         p_kernel_size p = ks \<and> p_stride p = st \<and> p_padding p = pd \<and>
         p_padding_mode p = pm \<and> p_groups p = g \<and> (\<not> wb \<longrightarrow> p_bias p = None) \<and>
         m = Suc n \<and> 0 < g \<and> cin mod g = 0 \<and> cout mod g = 0 \<and>
         pm \<in> set valid_padding_modes \<and> (class_transposed cls \<longrightarrow> pm = ''zeros'')"
  using assms by (auto simp: nn_Conv_def split: if_splits)

lemma py_index_table_Inr:
  "py_index (conv_table tr) (d - 2) = Inr c \<Longrightarrow> -1 \<le> d \<and> d \<le> 4"
  by (auto simp: py_index_def conv_table_def Let_def split: if_splits)

lemma py_index_0_Inr: "py_index xs 0 = Inr x \<Longrightarrow> xs \<noteq> [] \<and> x = hd xs"
  by (cases xs) (auto simp: py_index_def Let_def split: if_splits)

text \<open>What a successful construction has built.\<close>

lemma Nd_init_Inr:
  assumes "Nd_init tr eng a n = (Inr op, n')"
  shows "\<exists>conv_f. py_index (conv_table tr) (num_dims a - 2) = Inr conv_f \<and>
           as_tuple (kernel_size a) (num_dims a) \<noteq> [] \<and>
           length (self_conv_layers op) = nat (hd (as_tuple (kernel_size a) (num_dims a))) \<and>
           (\<forall>l \<in> set (self_conv_layers op).
              is_Base l \<and> p_class (the_prim l) = conv_f \<and>
              p_in_channels (the_prim l) = in_channels a \<and>
              p_out_channels (the_prim l) = out_channels a \<and>
              p_kernel_size (the_prim l) = drop 1 (as_tuple (kernel_size a) (num_dims a)) \<and>
              p_stride (the_prim l) = drop 1 (as_tuple (stride a) (num_dims a)) \<and>
              p_padding (the_prim l) = drop 1 (as_tuple (padding a) (num_dims a)) \<and>
              p_padding_mode (the_prim l) = padding_mode a \<and>
              p_groups (the_prim l) = groups a \<and>
              p_bias (the_prim l) = None)"
proof -
  let ?ks = "as_tuple (kernel_size a) (num_dims a)"
  let ?mk = "\<lambda>conv_f m.
       case nn_Conv eng conv_f (in_channels a) (out_channels a) False
              (drop 1 ?ks) (drop 1 (as_tuple (stride a) (num_dims a)))
              (drop 1 (as_tuple (padding a) (num_dims a)))
              (padding_mode a) (groups a) m of
         (Inl e, m') \<Rightarrow> (Inl e, m')
       | (Inr p, m') \<Rightarrow>
           (Inr (Base (case kernel_initializer a of
                         None \<Rightarrow> p
                       | Some f \<Rightarrow> p\<lparr>p_weight := fill_in_place f (p_weight p)\<rparr>)), m')"
  from assms obtain conv_f ndl layers where
    cf: "py_index (conv_table tr) (num_dims a - 2) = Inr conv_f" and
    nd: "py_index ?ks 0 = Inr ndl" and
    bl: "build_layers (nat ndl) (?mk conv_f) n = (Inr layers, n')" and
    ly: "self_conv_layers op = layers"
    by (auto simp: Nd_init_unfold Let_def split: sum.splits if_splits prod.splits)
  from build_layers_Inr[OF bl] have len: "length layers = nat ndl" and
    each: "\<forall>l \<in> set layers. \<exists>m m'. ?mk conv_f m = (Inr l, m')"
    by blast+
  have "is_Base l \<and> p_class (the_prim l) = conv_f \<and>
        p_in_channels (the_prim l) = in_channels a \<and>
        p_out_channels (the_prim l) = out_channels a \<and>
        p_kernel_size (the_prim l) = drop 1 ?ks \<and>
        p_stride (the_prim l) = drop 1 (as_tuple (stride a) (num_dims a)) \<and>
        p_padding (the_prim l) = drop 1 (as_tuple (padding a) (num_dims a)) \<and>
        p_padding_mode (the_prim l) = padding_mode a \<and>
        p_groups (the_prim l) = groups a \<and>
        p_bias (the_prim l) = None" if "l \<in> set layers" for l
  proof -
    from each that obtain m m' p where
      "nn_Conv eng conv_f (in_channels a) (out_channels a) False
         (drop 1 ?ks) (drop 1 (as_tuple (stride a) (num_dims a)))
         (drop 1 (as_tuple (padding a) (num_dims a)))
         (padding_mode a) (groups a) m = (Inr p, m')"
      and l: "l = Base (case kernel_initializer a of
                          None \<Rightarrow> p
                        | Some f \<Rightarrow> p\<lparr>p_weight := fill_in_place f (p_weight p)\<rparr>)"
      by (fastforce split: prod.splits sum.splits)
    from nn_Conv_Inr[OF this(1)] l show ?thesis
      by (auto split: option.splits)
  qed
  with cf nd len ly py_index_0_Inr[OF nd] show ?thesis by auto
qed

lemma Nd_init_high_dims:
  "5 \<le> num_dims a \<Longrightarrow> Nd_init tr eng a n = (Inl IndexError, n)"
  by (auto simp: Nd_init_unfold Let_def py_index_def conv_table_def)

section \<open>Facts about tensors\<close>

lemma valid_index_Nil [simp]: "valid_index [] idx = (idx = [])"
  by (simp add: valid_index_def)

lemma valid_index_Cons:
  "valid_index (n # ns) idx = (\<exists>i js. idx = i # js \<and> i < n \<and> valid_index ns js)"
  by (cases idx) (auto simp: valid_index_def)

lemma valid_index_Cons_Cons [simp]:
  "valid_index (n # ns) (i # js) = (i < n \<and> valid_index ns js)"
  by (simp add: valid_index_def)

lemma valid_index_length: "valid_index sh idx \<Longrightarrow> length idx = length sh"
  by (simp add: valid_index_def list_all2_lengthD)

lemma valid_index_nth: "valid_index sh idx \<Longrightarrow> k < length sh \<Longrightarrow> idx ! k < sh ! k"
  by (simp add: valid_index_def list_all2_nthD2)

lemma valid_index_append:
  "length i1 = length s1 \<Longrightarrow> valid_index (s1 @ s2) (i1 @ i2) = (valid_index s1 i1 \<and> valid_index s2 i2)"
  by (simp add: valid_index_def list_all2_append)

lemma flat_lt: "valid_index sh idx \<Longrightarrow> flat sh idx < prod_list sh"
proof (induction sh arbitrary: idx)
  case Nil
  then show ?case by simp
next
  case (Cons n ns)
  then obtain i js where idx: "idx = i # js" "i < n" "valid_index ns js"
    by (auto simp: valid_index_Cons)
  from Cons.IH[OF idx(3)] have "flat ns js < prod_list ns" .
  moreover have "i * prod_list ns + prod_list ns \<le> n * prod_list ns"
    using idx(2) by (metis Suc_leI mult_Suc mult_le_mono1 add.commute)
  ultimately show ?case using idx by simp
qed

lemma unflat_flat: "valid_index sh idx \<Longrightarrow> unflat sh (flat sh idx) = idx"
proof (induction sh arbitrary: idx)
  case Nil
  then show ?case by simp
next
  case (Cons n ns)
  then obtain i js where idx: "idx = i # js" "i < n" "valid_index ns js"
    by (auto simp: valid_index_Cons)
  have lt: "flat ns js < prod_list ns" by (rule flat_lt[OF idx(3)])
  with Cons.IH[OF idx(3)] idx show ?case by simp
qed

lemma valid_unflat: "k < prod_list sh \<Longrightarrow> valid_index sh (unflat sh k)"
proof (induction sh arbitrary: k)
  case Nil
  then show ?case by simp
next
  case (Cons n ns)
  from Cons.prems have pos: "0 < prod_list ns"
    by (cases "prod_list ns") auto
  have "k div prod_list ns < n"
    using Cons.prems by (simp add: less_mult_imp_div_less mult.commute)
  moreover have "valid_index ns (unflat ns (k mod prod_list ns))"
    using pos by (intro Cons.IH) simp
  ultimately show ?case by simp
qed

lemma flat_unflat: "k < prod_list sh \<Longrightarrow> flat sh (unflat sh k) = k"
proof (induction sh arbitrary: k)
  case Nil
  then show ?case by simp
next
  case (Cons n ns)
  from Cons.prems have pos: "0 < prod_list ns"
    by (cases "prod_list ns") auto
  then have "flat ns (unflat ns (k mod prod_list ns)) = k mod prod_list ns"
    by (intro Cons.IH) simp
  then show ?case by simp
qed

lemma length_unflat [simp]: "length (unflat sh k) = length sh"
  by (induction sh arbitrary: k) auto

lemma shape_tabulate [simp]: "shape (tabulate sh f) = sh"
  by (simp add: tabulate_def)

lemma wf_tabulate [simp]: "wf_tensor (tabulate sh f)"
  by (simp add: tabulate_def wf_tensor_def)

lemma length_data_tabulate [simp]: "length (data (tabulate sh f)) = prod_list sh"
  by (simp add: tabulate_def)

lemma elem_tabulate: "valid_index sh idx \<Longrightarrow> elem (tabulate sh f) idx = f idx"
  using flat_lt[of sh idx] by (simp add: elem_def tabulate_def unflat_flat)

lemma tabulate_cong:
  "(\<And>idx. valid_index sh idx \<Longrightarrow> f idx = g idx) \<Longrightarrow> tabulate sh f = tabulate sh g"
  by (simp add: tabulate_def valid_unflat)

lemma tabulate_elem: "wf_tensor t \<Longrightarrow> tabulate (shape t) (elem t) = t"
  by (cases t) (auto simp: tabulate_def elem_def wf_tensor_def flat_unflat intro!: nth_equalityI)

lemma tensor_eqI:
  assumes "wf_tensor s" "wf_tensor t" "shape s = shape t"
    and "\<And>idx. valid_index (shape s) idx \<Longrightarrow> elem s idx = elem t idx"
  shows "s = t"
proof -
  have "tabulate (shape s) (elem s) = tabulate (shape s) (elem t)"
    by (rule tabulate_cong) (rule assms(4))
  moreover have "tabulate (shape s) (elem s) = s"
    by (rule tabulate_elem[OF assms(1)])
  moreover have "tabulate (shape s) (elem t) = t"
    using tabulate_elem[OF assms(2)] assms(3) by simp
  ultimately show ?thesis by simp
qed

text \<open>Merging trailing axes into one (what a view with a final -1 does).\<close>

lemma prod_list_append_single [simp]: "prod_list (pre @ [prod_list rest]) = prod_list (pre @ rest)"
  by simp

lemma flat_merge:
  "length ipre = length pre \<Longrightarrow> q < prod_list rest \<Longrightarrow>
   flat (pre @ [prod_list rest]) (ipre @ [q]) = flat (pre @ rest) (ipre @ unflat rest q)"
proof (induction pre arbitrary: ipre)
  case Nil
  then show ?case by (simp add: flat_unflat)
next
  case (Cons n pre)
  then obtain i js where "ipre = i # js" "length js = length pre"
    by (cases ipre) auto
  with Cons show ?case by simp
qed

lemma unflat_merge:
  "k < prod_list (pre @ rest) \<Longrightarrow>
   unflat (pre @ [prod_list rest]) k =
     take (length pre) (unflat (pre @ rest) k) @ [flat rest (drop (length pre) (unflat (pre @ rest) k))]"
proof (induction pre arbitrary: k)
  case Nil
  then show ?case by (simp add: flat_unflat)
next
  case (Cons n pre)
  from Cons.prems have pos: "0 < prod_list (pre @ rest)"
    by (cases "prod_list (pre @ rest)") auto
  then have "k mod prod_list (pre @ rest) < prod_list (pre @ rest)" by simp
  from Cons.IH[OF this] show ?case by simp
qed

subsection \<open>Views and slices\<close>

lemma view_Inr_data: "view t sh = Inr v \<Longrightarrow> data v = data t"
  by (auto simp: view_def Let_def split: if_splits)

lemma view_error: "view t sh = Inl e \<Longrightarrow> e = RuntimeError"
  by (auto simp: view_def Let_def split: if_splits)

lemma view_exact:
  "prod_list sh = length (data t) \<Longrightarrow> view t (map int sh) = Inr \<lparr>shape = sh, data = data t\<rparr>"
proof -
  assume a: "prod_list sh = length (data t)"
  have 1: "\<not> (\<exists>d \<in> set (map int sh). d < -1)" by auto
  have 2: "filter (\<lambda>d. d = -1) (map int sh) = []" by (auto simp: filter_empty_conv)
  have 3: "-1 \<notin> set (map int sh)" by auto
  have 4: "map nat (map int sh) = sh" by (simp add: map_idI)
  show ?thesis
    unfolding view_def Let_def using a 1 2 3 4 by (simp del: set_map map_map)
qed

lemma view_exact_Inr:
  "view t (map int sh) = Inr v \<Longrightarrow> prod_list sh = length (data t) \<and> v = \<lparr>shape = sh, data = data t\<rparr>"
proof -
  assume a: "view t (map int sh) = Inr v"
  have 3: "-1 \<notin> set (map int sh)" by auto
  have 4: "map nat (map int sh) = sh" by (simp add: map_idI)
  from a 3 4 show ?thesis
    unfolding view_def Let_def by (auto simp del: set_map map_map split: if_splits)
qed

lemma view_merge_iff:
  "view t (map int pre @ [-1]) = Inr v \<longleftrightarrow>
     prod_list pre \<noteq> 0 \<and> length (data t) mod prod_list pre = 0 \<and>
     v = \<lparr>shape = pre @ [length (data t) div prod_list pre], data = data t\<rparr>"
proof -
  have 1: "\<not> (\<exists>d \<in> set (map int pre @ [-1]). d < -1)" by auto
  have 2: "filter (\<lambda>d. d = -1) (map int pre @ [-1]) = [-1]" by (auto simp: filter_empty_conv)
  have 3: "filter (\<lambda>d. d \<noteq> -1) (map int pre @ [-1]) = map int pre" by (auto simp: filter_id_conv)
  have 4: "map nat (map int pre) = pre" by (simp add: map_idI)
  have 5: "map (\<lambda>d. if d = -1 then n else nat d) (map int pre @ [-1]) = pre @ [n]" for n
    by (auto simp: map_idI)
  show ?thesis
    unfolding view_def Let_def using 1
    by (simp only: 2 3 4 5) auto
qed

lemma elem_merged:
  assumes "shape x = pre @ rest" "length ipre = length pre" "q < prod_list rest"
  shows "elem \<lparr>shape = pre @ [prod_list rest], data = data x\<rparr> (ipre @ [q]) =
         elem x (ipre @ unflat rest q)"
  using assms by (simp add: elem_def flat_merge)

lemma reshape_merged:
  "\<lparr>shape = pre @ rest, data = data (tabulate (pre @ [prod_list rest]) f)\<rparr> =
   tabulate (pre @ rest)
     (\<lambda>idx. f (take (length pre) idx @ [flat rest (drop (length pre) idx)]))"
  by (simp add: tabulate_def unflat_merge)

text \<open>The slice of the input that the loop body hands to a child.\<close>

definition slice2 :: "'a tensor \<Rightarrow> nat \<Rightarrow> 'a tensor" where
  "slice2 x j =
     tabulate (take 2 (shape x) @ drop 3 (shape x)) (\<lambda>idx. elem x (take 2 idx @ j # drop 2 idx))"

definition frame_input :: "'a tensor \<Rightarrow> nat \<Rightarrow> nat \<Rightarrow> nat list \<Rightarrow> nat \<Rightarrow> error + 'a tensor" where
  "frame_input input b c_i size_i j =
     (case view input [int b, int c_i, int (size_i ! 0), -1] of
        Inl e \<Rightarrow> Inl e
      | Inr conv_input \<Rightarrow>
          (case select2 conv_input j of
             Inl e \<Rightarrow> Inl e
           | Inr conv_input \<Rightarrow> view conv_input (int b # int c_i # map int (drop 1 size_i))))"

lemma valid_index_3: "valid_index (b # c # rest) idx \<Longrightarrow>
  \<exists>ib ic r. idx = ib # ic # r \<and> ib < b \<and> ic < c \<and> valid_index rest r"
  by (auto simp: valid_index_Cons)

lemma frame_input_iff:
  assumes wf: "wf_tensor input" and sh: "shape input = b # c # d # rest"
  shows "frame_input input b c (d # rest) j = Inr ci \<longleftrightarrow>
           0 < b \<and> 0 < c \<and> 0 < d \<and> j < d \<and> ci = slice2 input j"
proof -
  let ?P = "prod_list rest"
  have numel: "length (data input) = b * c * d * ?P"
    using wf sh by (simp add: wf_tensor_def mult.assoc)
  have v1: "view input [int b, int c, int d, -1] = Inr v \<longleftrightarrow>
              b * c * d \<noteq> 0 \<and> v = \<lparr>shape = [b, c, d, ?P], data = data input\<rparr>" for v
    using view_merge_iff[of input "[b, c, d]" v] numel by (auto simp: mult.assoc)
  show ?thesis
  proof (cases "b * c * d = 0")
    case True
    then have "\<not> (0 < b \<and> 0 < c \<and> 0 < d)" by auto
    moreover have "frame_input input b c (d # rest) j \<noteq> Inr ci"
      using v1 True by (auto simp: frame_input_def split: sum.splits)
    ultimately show ?thesis by blast
  next
    case False
    then have pos: "0 < b" "0 < c" "0 < d" by auto
    let ?v = "\<lparr>shape = [b, c, d, ?P], data = data input\<rparr>"
    have v: "view input [int b, int c, int d, -1] = Inr ?v"
      using v1 False by simp
    show ?thesis
    proof (cases "j < d")
      case False
      then show ?thesis
        by (simp add: frame_input_def v select2_def)
    next
      case True
      let ?f = "\<lambda>idx. elem ?v [idx ! 0, idx ! 1, j, idx ! 2]"
      have s: "select2 ?v j = Inr (tabulate [b, c, ?P] ?f)"
        using True by (simp add: select2_def)
      have "view (tabulate [b, c, ?P] ?f) (map int (b # c # rest)) =
              Inr \<lparr>shape = b # c # rest, data = data (tabulate [b, c, ?P] ?f)\<rparr>"
        by (rule view_exact) (simp add: mult.assoc)
      moreover have "\<lparr>shape = b # c # rest, data = data (tabulate [b, c, ?P] ?f)\<rparr> =
              slice2 input j"
      proof -
        have "\<lparr>shape = [b, c] @ rest, data = data (tabulate ([b, c] @ [?P]) ?f)\<rparr> =
              tabulate ([b, c] @ rest)
                (\<lambda>idx. ?f (take (length [b, c]) idx @ [flat rest (drop (length [b, c]) idx)]))"
          by (rule reshape_merged)
        also have "\<dots> = tabulate (b # c # rest) (\<lambda>idx. elem input (take 2 idx @ j # drop 2 idx))"
          unfolding append_Cons append_Nil
        proof (rule tabulate_cong)
          fix idx assume "valid_index (b # c # rest) idx"
          then obtain ib ic r where idx: "idx = ib # ic # r" "ib < b" "ic < c" "valid_index rest r"
            using valid_index_3 by blast
          have "elem \<lparr>shape = [b, c, d] @ [?P], data = data input\<rparr> ([ib, ic, j] @ [flat rest r]) =
                elem input ([ib, ic, j] @ unflat rest (flat rest r))"
            by (rule elem_merged) (use sh flat_lt[OF idx(4)] in simp_all)
          then show "?f (take (length [b, c]) idx @ [flat rest (drop (length [b, c]) idx)]) =
                elem input (take 2 idx @ j # drop 2 idx)"
            using idx by (simp add: unflat_flat)
        qed
        finally show ?thesis by (simp add: slice2_def sh)
      qed
      ultimately show ?thesis
        using pos True by (auto simp: frame_input_def v s)
    qed
  qed
qed

lemma shape_slice2: "shape x = b # c # d # rest \<Longrightarrow> shape (slice2 x j) = b # c # rest"
  by (simp add: slice2_def)

lemma wf_slice2 [simp]: "wf_tensor (slice2 x j)"
  by (simp add: slice2_def)

lemma elem_slice2:
  "shape x = b # c # d # rest \<Longrightarrow> valid_index (b # c # rest) (ib # ic # r) \<Longrightarrow>
   elem (slice2 x j) (ib # ic # r) = elem x (ib # ic # j # r)"
  by (simp add: slice2_def elem_tabulate)

subsection \<open>Zero-fill, in-place addition and stacking\<close>

lemma torch_zeros_iff:
  "torch_zeros sh = Inr z \<longleftrightarrow> (\<forall>d \<in> set sh. 0 \<le> d) \<and> z = tabulate (map nat sh) (\<lambda>_. 0)"
proof -
  have "(\<exists>d \<in> set sh. d < 0) = (\<not> (\<forall>d \<in> set sh. 0 \<le> d))"
    by (auto simp: not_le)
  then show ?thesis by (auto simp: torch_zeros_def)
qed

lemma elem_data: "wf_tensor t \<Longrightarrow> k < prod_list (shape t) \<Longrightarrow> elem t (unflat (shape t) k) = data t ! k"
  by (simp add: elem_def flat_unflat)

lemma iadd_eq:
  assumes "shape s = shape t" "wf_tensor s" "wf_tensor t"
  shows "iadd s t = Inr (tabulate (shape s) (\<lambda>idx. elem s idx + elem t idx))"
proof -
  have "map (\<lambda>(x, y). x + y) (zip (data s) (data t)) =
        map (\<lambda>k. elem s (unflat (shape s) k) + elem t (unflat (shape s) k)) [0..<prod_list (shape s)]"
    using assms by (intro nth_equalityI) (auto simp: wf_tensor_def elem_def flat_unflat)
  then show ?thesis using assms(1) by (simp add: iadd_def tabulate_def)
qed

lemma iadd_Inr_shape: "iadd s t = Inr u \<Longrightarrow> shape s = shape t"
  by (auto simp: iadd_def split: if_splits)

lemma torch_stack_eq:
  assumes "ts \<noteq> []" "\<forall>u \<in> set ts. shape u = sh" "2 \<le> length sh"
  shows "torch_stack ts =
           Inr (tabulate (take 2 sh @ [length ts] @ drop 2 sh)
                  (\<lambda>idx. elem (ts ! (idx ! 2)) (take 2 idx @ drop 3 idx)))"
  using assms by (cases ts) (auto simp: torch_stack_def)

lemma torch_stack_Inr:
  "torch_stack ts = Inr r \<Longrightarrow> ts \<noteq> [] \<and> (\<forall>u \<in> set ts. shape u = shape (hd ts)) \<and> 2 \<le> length (shape (hd ts))"
  by (cases ts) (auto simp: torch_stack_def split: if_splits)

subsection \<open>Loops\<close>

lemma for_loop_append:
  "for_loop (xs @ ys) body s =
     (case for_loop xs body s of Inl e \<Rightarrow> Inl e | Inr s' \<Rightarrow> for_loop ys body s')"
  by (induction xs arbitrary: s) (auto split: sum.splits)

lemma for_loop_product:
  "for_loop xs (\<lambda>x. for_loop ys (body x)) s =
   for_loop (List.product xs ys) (\<lambda>(x, y). body x y) s"
proof (induction xs arbitrary: s)
  case Nil
  then show ?case by simp
next
  case (Cons x xs)
  have "for_loop (map (Pair x) ys) (\<lambda>(x, y). body x y) s = for_loop ys (body x) s" for s
    by (induction ys arbitrary: s) (auto split: sum.splits)
  with Cons show ?case by (simp add: for_loop_append split: sum.splits)
qed

lemma for_loop_Inr_each:
  "for_loop xs body s = Inr s' \<Longrightarrow> x \<in> set xs \<Longrightarrow> \<exists>s1 s2. body x s1 = Inr s2"
  by (induction xs arbitrary: s) (auto split: sum.splits)

lemma for_loop_error:
  "for_loop xs body s = Inl e \<Longrightarrow> \<exists>x s1. x \<in> set xs \<and> body x s1 = Inl e"
proof (induction xs arbitrary: s)
  case Nil
  then show ?case by simp
next
  case (Cons a xs)
  show ?case
  proof (cases "body a s")
    case (Inl e')
    with Cons.prems show ?thesis by auto
  next
    case (Inr s')
    with Cons.prems have "for_loop xs body s' = Inl e" by simp
    from Cons.IH[OF this] show ?thesis by auto
  qed
qed

lemma sum_list_product:
  "sum_list (map f (List.product xs ys)) =
   sum_list (map (\<lambda>x. sum_list (map (\<lambda>y. f (x, y)) ys)) xs)"
  by (induction xs) (simp_all add: comp_def)

subsection \<open>The overlap-add loop\<close>

definition child_call ::
  "('a tensor \<Rightarrow> error + 'a tensor) list \<Rightarrow> 'a tensor \<Rightarrow> nat \<Rightarrow> nat \<Rightarrow> nat list \<Rightarrow> nat \<Rightarrow> nat \<Rightarrow>
   error + 'a tensor" where
  "child_call layers input b c_i size_i i j =
     (case frame_input input b c_i size_i j of
        Inl e \<Rightarrow> Inl e
      | Inr conv_input \<Rightarrow>
          (case py_index layers (int i) of
             Inl e \<Rightarrow> Inl e
           | Inr layer \<Rightarrow> layer conv_input))"

lemma convolve_frame_eq:
  "convolve_frame layers input b c_i size_i i j out_frame (frame_results, empty_frames) =
     (case child_call layers input b c_i size_i i j of
        Inl e \<Rightarrow> Inl e
      | Inr frame_conv \<Rightarrow>
          if empty_frames ! out_frame = None
          then Inr (frame_results[out_frame := frame_conv], empty_frames[out_frame := Some 1])
          else (case iadd (frame_results ! out_frame) frame_conv of
                  Inl e \<Rightarrow> Inl e
                | Inr s \<Rightarrow> Inr (frame_results[out_frame := s], empty_frames)))"
  by (auto simp: convolve_frame_def child_call_def frame_input_def split: sum.splits)

text \<open>
  The invariant of the loop: every frame has the shape \<open>sh\<close>, frame \<open>out\<close> holds the values
  \<open>V out\<close>, and a frame that is still marked empty holds zeros.
\<close>

definition frames_inv ::
  "nat list \<Rightarrow> nat \<Rightarrow> (nat \<Rightarrow> nat list \<Rightarrow> 'a::zero) \<Rightarrow> 'a tensor list \<times> int option list \<Rightarrow> bool" where
  "frames_inv sh n V st =
     (length (fst st) = n \<and> length (snd st) = n \<and>
      (\<forall>out < n. shape (fst st ! out) = sh \<and> wf_tensor (fst st ! out) \<and>
         (\<forall>idx. valid_index sh idx \<longrightarrow> elem (fst st ! out) idx = V out idx) \<and>
         (snd st ! out = None \<longrightarrow> (\<forall>idx. valid_index sh idx \<longrightarrow> V out idx = 0))))"

lemma frames_inv_cong:
  "frames_inv sh n V st \<Longrightarrow> (\<And>out idx. out < n \<Longrightarrow> valid_index sh idx \<Longrightarrow> V out idx = W out idx) \<Longrightarrow>
   frames_inv sh n W st"
  by (simp add: frames_inv_def)

lemma frames_inv_init:
  "frames_inv sh n (\<lambda>_ _. 0) (replicate n (tabulate sh (\<lambda>_. 0)), replicate n None)"
  by (simp add: frames_inv_def elem_tabulate)

lemma frames_inv_step:
  fixes V :: "nat \<Rightarrow> nat list \<Rightarrow> 'a::comm_monoid_add"
  assumes inv: "frames_inv sh n V st" and out: "out < n"
    and call: "child_call layers input b c_i size_i i j = Inr fc"
    and fc: "shape fc = sh" "wf_tensor fc"
  shows "\<exists>st'. convolve_frame layers input b c_i size_i i j out st = Inr st' \<and>
           frames_inv sh n (\<lambda>o' idx. V o' idx + (if o' = out then elem fc idx else 0)) st'"
proof -
  obtain fr em where st: "st = (fr, em)" by (cases st)
  from inv out st have len: "length fr = n" "length em = n"
    and sh: "shape (fr ! out) = sh" and wf: "wf_tensor (fr ! out)"
    by (auto simp: frames_inv_def)
  show ?thesis
  proof (cases "em ! out = None")
    case True
    then have "convolve_frame layers input b c_i size_i i j out st =
                 Inr (fr[out := fc], em[out := Some 1])"
      by (simp add: st convolve_frame_eq call)
    moreover have "frames_inv sh n (\<lambda>o' idx. V o' idx + (if o' = out then elem fc idx else 0))
                     (fr[out := fc], em[out := Some 1])"
      using inv fc True out unfolding frames_inv_def st
      by (auto simp: nth_list_update)
    ultimately show ?thesis by blast
  next
    case False
    have add: "iadd (fr ! out) fc = Inr (tabulate sh (\<lambda>idx. elem (fr ! out) idx + elem fc idx))"
      using iadd_eq[of "fr ! out" fc] sh wf fc by simp
    then have "convolve_frame layers input b c_i size_i i j out st =
                 Inr (fr[out := tabulate sh (\<lambda>idx. elem (fr ! out) idx + elem fc idx)], em)"
      using False by (auto simp: st convolve_frame_eq call)
    moreover have "frames_inv sh n (\<lambda>o' idx. V o' idx + (if o' = out then elem fc idx else 0))
                     (fr[out := tabulate sh (\<lambda>idx. elem (fr ! out) idx + elem fc idx)], em)"
      using inv False out unfolding frames_inv_def st
      by (auto simp: nth_list_update elem_tabulate)
    ultimately show ?thesis by blast
  qed
qed

definition loop_body ::
  "(nat \<Rightarrow> nat \<Rightarrow> nat option) \<Rightarrow> ('a::plus tensor \<Rightarrow> error + 'a tensor) list \<Rightarrow> 'a tensor \<Rightarrow>
   nat \<Rightarrow> nat \<Rightarrow> nat list \<Rightarrow> nat \<times> nat \<Rightarrow> 'a tensor list \<times> int option list \<Rightarrow>
   error + 'a tensor list \<times> int option list" where
  "loop_body tgt layers input b c_i size_i ij st =
     (case tgt (fst ij) (snd ij) of
        None \<Rightarrow> Inr st
      | Some out \<Rightarrow> convolve_frame layers input b c_i size_i (fst ij) (snd ij) out st)"

definition contribution ::
  "(nat \<Rightarrow> nat \<Rightarrow> nat option) \<Rightarrow> ('a::zero tensor \<Rightarrow> error + 'a tensor) list \<Rightarrow> 'a tensor \<Rightarrow>
   nat \<Rightarrow> nat \<Rightarrow> nat list \<Rightarrow> nat \<Rightarrow> nat list \<Rightarrow> nat \<times> nat \<Rightarrow> 'a" where
  "contribution tgt layers input b c_i size_i out idx ij =
     (if tgt (fst ij) (snd ij) = Some out
      then elem (projr (child_call layers input b c_i size_i (fst ij) (snd ij))) idx
      else 0)"

lemma overlap_add_loop:
  fixes V :: "nat \<Rightarrow> nat list \<Rightarrow> 'a::comm_monoid_add"
  assumes "frames_inv sh n V st"
    and "\<And>i j out. (i, j) \<in> set ps \<Longrightarrow> tgt i j = Some out \<Longrightarrow>
           out < n \<and> (\<exists>fc. child_call layers input b c_i size_i i j = Inr fc \<and>
                         shape fc = sh \<and> wf_tensor fc)"
  shows "\<exists>st'. for_loop ps (loop_body tgt layers input b c_i size_i) st = Inr st' \<and>
           frames_inv sh n
             (\<lambda>out idx. V out idx +
                sum_list (map (contribution tgt layers input b c_i size_i out idx) ps)) st'"
  using assms
proof (induction ps arbitrary: st V)
  case Nil
  then show ?case by simp
next
  case (Cons ij ps)
  obtain i j where ij: "ij = (i, j)" by (cases ij)
  have rest: "\<And>i j out. (i, j) \<in> set ps \<Longrightarrow> tgt i j = Some out \<Longrightarrow>
           out < n \<and> (\<exists>fc. child_call layers input b c_i size_i i j = Inr fc \<and>
                         shape fc = sh \<and> wf_tensor fc)"
    using Cons.prems(2) by auto
  show ?case
  proof (cases "tgt i j")
    case None
    from Cons.IH[OF Cons.prems(1) rest] obtain st' where
      st': "for_loop ps (loop_body tgt layers input b c_i size_i) st = Inr st'"
      "frames_inv sh n (\<lambda>out idx. V out idx +
          sum_list (map (contribution tgt layers input b c_i size_i out idx) ps)) st'"
      by blast
    have "frames_inv sh n (\<lambda>out idx. V out idx +
          sum_list (map (contribution tgt layers input b c_i size_i out idx) (ij # ps))) st'"
      by (rule frames_inv_cong[OF st'(2)]) (simp add: contribution_def ij None)
    moreover have "loop_body tgt layers input b c_i size_i ij st = Inr st"
      by (simp add: loop_body_def ij None)
    ultimately show ?thesis using st'(1) by auto
  next
    case (Some out)
    from Cons.prems(2)[of i j out] Some ij obtain fc where
      out: "out < n" and call: "child_call layers input b c_i size_i i j = Inr fc"
      and fc: "shape fc = sh" "wf_tensor fc"
      by auto
    from frames_inv_step[OF Cons.prems(1) out call fc] obtain st1 where
      st1: "convolve_frame layers input b c_i size_i i j out st = Inr st1"
      "frames_inv sh n (\<lambda>o' idx. V o' idx + (if o' = out then elem fc idx else 0)) st1"
      by blast
    from Cons.IH[OF st1(2) rest] obtain st' where
      st': "for_loop ps (loop_body tgt layers input b c_i size_i) st1 = Inr st'"
      "frames_inv sh n (\<lambda>o' idx. V o' idx + (if o' = out then elem fc idx else 0) +
          sum_list (map (contribution tgt layers input b c_i size_i o' idx) ps)) st'"
      by blast
    have "frames_inv sh n (\<lambda>out idx. V out idx +
          sum_list (map (contribution tgt layers input b c_i size_i out idx) (ij # ps))) st'"
      by (rule frames_inv_cong[OF st'(2)]) (simp add: contribution_def ij Some call add.assoc)
    moreover have "loop_body tgt layers input b c_i size_i ij st = Inr st1"
      by (simp add: loop_body_def ij Some st1(1))
    ultimately show ?thesis using st'(1) by auto
  qed
qed

lemma overlap_add_calls:
  assumes "for_loop ps (loop_body tgt layers input b c_i size_i) st = Inr st'"
    and "(i, j) \<in> set ps" "tgt i j = Some out"
  shows "\<exists>fc. child_call layers input b c_i size_i i j = Inr fc"
proof -
  from for_loop_Inr_each[OF assms(1,2)] obtain s1 s2 where
    "loop_body tgt layers input b c_i size_i (i, j) s1 = Inr s2" by blast
  then have "convolve_frame layers input b c_i size_i i j out (fst s1, snd s1) = Inr s2"
    by (simp add: loop_body_def assms(3))
  then show ?thesis
    unfolding convolve_frame_eq
    by (cases "child_call layers input b c_i size_i i j") simp_all
qed

subsection \<open>The forward passes in parts\<close>

definition pad_leading :: "'a::zero ndconv \<Rightarrow> 'a tensor \<Rightarrow> error + int list \<times> 'a tensor" where
  "pad_leading self input =
     (case py_index (shape input) 2 of
        Inl e \<Rightarrow> Inl e
      | Inr s2 \<Rightarrow>
          (case py_index (self_padding self) 0 of
             Inl e \<Rightarrow> Inl e
           | Inr p0 \<Rightarrow>
               (case view input [int (shape input ! 0), int (shape input ! 1),
                                 int (shape input ! 2), -1] of
                  Inl e \<Rightarrow> Inl e
                | Inr v \<Rightarrow>
                    (case F_pad v (0, 0, p0, p0)
                            (if self_padding_mode self = ''zeros'' then ''constant''
                             else ''reflect'') of
                       Inl e \<Rightarrow> Inl e
                     | Inr v \<Rightarrow>
                         (case view v ((map int (shape input))[2 := int s2 + 2 * p0]) of
                            Inl e \<Rightarrow> Inl e
                          | Inr input' \<Rightarrow> Inr ((self_padding self)[0 := 0], input'))))))"

definition conv_sizes :: "nat list \<Rightarrow> int list \<Rightarrow> int list \<Rightarrow> int list \<Rightarrow> error + int list" where
  "conv_sizes size_i pd size_k st =
     list_comp (length size_i)
       (\<lambda>x. case py_index pd (int x) of
              Inl e \<Rightarrow> Inl e
            | Inr p \<Rightarrow>
                (case py_index size_k (int x) of
                   Inl e \<Rightarrow> Inl e
                 | Inr k \<Rightarrow>
                     (case py_index st (int x) of
                        Inl e \<Rightarrow> Inl e
                      | Inr s \<Rightarrow>
                          if s = 0 then Inl ZeroDivisionError
                          else Inr ((int (size_i ! x) + 2 * p - k) div s + 1))))"

definition transpose_sizes :: "nat list \<Rightarrow> int list \<Rightarrow> int list \<Rightarrow> int list \<Rightarrow> error + int list" where
  "transpose_sizes size_i pd size_k st =
     list_comp (length size_i)
       (\<lambda>x. case py_index st (int x) of
              Inl e \<Rightarrow> Inl e
            | Inr s \<Rightarrow>
                (case py_index pd (int x) of
                   Inl e \<Rightarrow> Inl e
                 | Inr p \<Rightarrow>
                     (case py_index size_k (int x) of
                        Inl e \<Rightarrow> Inl e
                      | Inr k \<Rightarrow> Inr ((int (size_i ! x) - 1) * s - 2 * p + (k - 1) + 1))))"

text \<open>The frame that the pair \<open>(i, j)\<close> writes to, or \<open>None\<close> when the loop body skips it.\<close>

definition tgt_conv :: "int \<Rightarrow> nat \<Rightarrow> int \<Rightarrow> int \<Rightarrow> int \<Rightarrow> nat \<Rightarrow> nat \<Rightarrow> nat option" where
  "tgt_conv k0 n_i ons0 s0 size_o0 i j =
     (let out_frame = int j - (int i - k0 div 2) - (int n_i - ons0) div 2 - (1 - k0 mod 2);
          k_center_position = out_frame mod s0;
          out_frame = out_frame div s0
      in if out_frame < 0 \<or> size_o0 \<le> out_frame \<or> k_center_position \<noteq> 0 then None
         else Some (nat out_frame))"

definition tgt_transpose :: "int \<Rightarrow> int \<Rightarrow> int \<Rightarrow> nat \<Rightarrow> nat \<Rightarrow> nat option" where
  "tgt_transpose k0 p0 size_o0 i j =
     (let out_frame = (int i + k0 div 2) + int j - k0 div 2 - p0
      in if out_frame < 0 \<or> size_o0 \<le> out_frame then None else Some (nat out_frame))"

definition frames_loop ::
  "(nat \<Rightarrow> nat \<Rightarrow> nat option) \<Rightarrow> 'a::comm_semiring_0 ndconv \<Rightarrow> ('a tensor \<Rightarrow> error + 'a tensor) list \<Rightarrow>
   'a tensor \<Rightarrow> nat \<Rightarrow> nat \<Rightarrow> nat list \<Rightarrow> int list \<Rightarrow> error + 'a tensor" where
  "frames_loop tgt self layers input b c_i size_i size_o =
     (case py_index size_o 0 of
        Inl e \<Rightarrow> Inl e
      | Inr size_o0 \<Rightarrow>
          (case torch_zeros (int b # int (self_out_channels self) # drop 1 size_o) of
             Inl e \<Rightarrow> Inl e
           | Inr z \<Rightarrow>
               (case for_loop [0..<nat (self_kernel_size self ! 0)]
                       (\<lambda>i. for_loop [0..<size_i ! 0]
                              (\<lambda>j. loop_body tgt layers input b c_i size_i (i, j)))
                       (replicate (nat size_o0) z, replicate (nat size_o0) None) of
                  Inl e \<Rightarrow> Inl e
                | Inr st \<Rightarrow> stack_and_bias self b (fst st))))"

lemma case_if_option:
  "(case (if c then None else Some x) of None \<Rightarrow> a | Some y \<Rightarrow> f y) = (if c then a else f x)"
  by simp

lemma py_index_0_hd: "py_index xs 0 = Inr x \<Longrightarrow> hd xs = x"
  by (cases xs) (auto simp: py_index_def split: if_splits)

lemma ConvNd_apply_eq:
  "ConvNd_apply self layers input =
     (case (if self_rank self = 0 then pad_leading self input
            else Inr (self_padding self, input)) of
        Inl e \<Rightarrow> Inl e
      | Inr padded \<Rightarrow>
          (case shape (snd padded) of
             b # c_i # size_i \<Rightarrow>
               (case conv_sizes size_i (fst padded) (self_kernel_size self) (self_stride self) of
                  Inl e \<Rightarrow> Inl e
                | Inr size_o \<Rightarrow>
                    frames_loop
                      (tgt_conv (self_kernel_size self ! 0) (size_i ! 0)
                         (map (\<lambda>x. int (size_i ! x) - self_kernel_size self ! x + 1)
                            [0..<length size_i] ! 0)
                         (self_stride self ! 0) (hd size_o))
                      self layers (snd padded) b c_i size_i size_o)
           | _ \<Rightarrow> Inl ValueError))"
  unfolding ConvNd_apply_def pad_leading_def conv_sizes_def frames_loop_def Let_def tgt_conv_def
    loop_body_def
  by (simp add: case_if_option py_index_0_hd case_prod_beta fst_conv snd_conv
        cong: sum.case_cong list.case_cong if_cong)

definition cuda_frames_loop ::
  "runtime \<Rightarrow> (nat \<Rightarrow> nat \<Rightarrow> nat option) \<Rightarrow> 'a::comm_semiring_0 ndconv \<Rightarrow>
   ('a tensor \<Rightarrow> error + 'a tensor) list \<Rightarrow>
   'a tensor \<Rightarrow> nat \<Rightarrow> nat \<Rightarrow> nat list \<Rightarrow> int list \<Rightarrow> error + 'a tensor" where
  "cuda_frames_loop rt tgt self layers input b c_i size_i size_o =
     (case py_index size_o 0 of
        Inl e \<Rightarrow> Inl e
      | Inr size_o0 \<Rightarrow>
          (case torch_zeros (int b # int (self_out_channels self) # drop 1 size_o) of
             Inl e \<Rightarrow> Inl e
           | Inr z \<Rightarrow>
               (case cuda rt z of
                  Inl e \<Rightarrow> Inl e
                | Inr z \<Rightarrow>
                    (case for_loop [0..<nat (self_kernel_size self ! 0)]
                            (\<lambda>i. for_loop [0..<size_i ! 0]
                                   (\<lambda>j. loop_body tgt layers input b c_i size_i (i, j)))
                            (replicate (nat size_o0) z, replicate (nat size_o0) None) of
                       Inl e \<Rightarrow> Inl e
                     | Inr st \<Rightarrow>
                         if same_device (frame_devices rt (snd st))
                         then stack_and_bias self b (fst st)
                         else Inl RuntimeError))))"

lemma ConvTransposeNd_apply_eq:
  "ConvTransposeNd_apply rt self layers input =
     (case shape input of
        b # c_i # size_i \<Rightarrow>
          (case transpose_sizes size_i (self_padding self) (self_kernel_size self)
                  (self_stride self) of
             Inl e \<Rightarrow> Inl e
           | Inr size_o \<Rightarrow>
               cuda_frames_loop rt
                 (tgt_transpose (self_kernel_size self ! 0) (self_padding self ! 0) (hd size_o))
                 self layers input b c_i size_i size_o)
      | _ \<Rightarrow> Inl ValueError)"
  unfolding ConvTransposeNd_apply_def transpose_sizes_def cuda_frames_loop_def Let_def
    tgt_transpose_def loop_body_def
  by (simp add: case_if_option py_index_0_hd case_prod_beta fst_conv snd_conv
        cong: sum.case_cong list.case_cong if_cong)

lemma cuda_frames_loop_Inr:
  "cuda_frames_loop rt tgt self layers input b c_i size_i size_o = Inr y \<Longrightarrow>
   cuda_available rt \<and> frames_loop tgt self layers input b c_i size_i size_o = Inr y"
  unfolding cuda_frames_loop_def frames_loop_def cuda_def
  by (auto split: sum.splits if_splits)

lemma same_device_cuda:
  "input_device rt = CUDA \<Longrightarrow> same_device (frame_devices rt es)"
proof -
  assume "input_device rt = CUDA"
  then have "frame_devices rt es = replicate (length es) CUDA"
    by (simp add: frame_devices_def map_replicate_const[symmetric])
  then show ?thesis
    by (cases es) (simp_all add: same_device_def list_all_iff)
qed

lemma cuda_frames_loop_on_cuda:
  "cuda_available rt \<Longrightarrow> input_device rt = CUDA \<Longrightarrow>
   cuda_frames_loop rt tgt self layers input b c_i size_i size_o =
   frames_loop tgt self layers input b c_i size_i size_o"
  unfolding cuda_frames_loop_def frames_loop_def cuda_def
  by (simp add: same_device_cuda cong: sum.case_cong)

lemma frames_loop_product:
  "frames_loop tgt self layers input b c_i size_i size_o =
     (case py_index size_o 0 of
        Inl e \<Rightarrow> Inl e
      | Inr size_o0 \<Rightarrow>
          (case torch_zeros (int b # int (self_out_channels self) # drop 1 size_o) of
             Inl e \<Rightarrow> Inl e
           | Inr z \<Rightarrow>
               (case for_loop (List.product [0..<nat (self_kernel_size self ! 0)] [0..<size_i ! 0])
                       (loop_body tgt layers input b c_i size_i)
                       (replicate (nat size_o0) z, replicate (nat size_o0) None) of
                  Inl e \<Rightarrow> Inl e
                | Inr st \<Rightarrow> stack_and_bias self b (fst st))))"
proof -
  have "for_loop xs (\<lambda>i. for_loop ys (\<lambda>j. loop_body tgt layers input b c_i size_i (i, j))) s =
        for_loop (List.product xs ys) (loop_body tgt layers input b c_i size_i) s" for xs ys s
    using for_loop_product[of xs ys "\<lambda>i j. loop_body tgt layers input b c_i size_i (i, j)" s]
    by (simp add: case_prod_eta)
  then show ?thesis by (simp add: frames_loop_def cong: sum.case_cong)
qed

subsection \<open>Stacking and the bias\<close>

lemma add_channel_eq:
  "shape r = [b, c, m] \<Longrightarrow> k < c \<Longrightarrow>
   add_channel r k v =
     Inr (tabulate [b, c, m] (\<lambda>idx. if idx ! 1 = k then elem r idx + v else elem r idx))"
  by (simp add: add_channel_def)

lemma bias_at_eq:
  "shape bt = [n] \<Longrightarrow> wf_tensor bt \<Longrightarrow> k < n \<Longrightarrow> bias_at bt k = Inr (elem bt [k])"
  by (simp add: bias_at_def elem_def wf_tensor_def)

definition bias_body :: "'a::plus ndconv \<Rightarrow> nat \<Rightarrow> 'a tensor \<Rightarrow> error + 'a tensor" where
  "bias_body self k result =
     (if shape result ! 1 \<le> k then Inl IndexError
      else (case self_bias self of
              None \<Rightarrow> Inl TypeError
            | Some bt \<Rightarrow>
                (case bias_at bt k of
                   Inl e \<Rightarrow> Inl e
                 | Inr v \<Rightarrow> add_channel result k v)))"

lemma stack_and_bias_eq:
  "stack_and_bias self b frame_results =
     (case torch_stack frame_results of
        Inl e \<Rightarrow> Inl e
      | Inr result \<Rightarrow>
          if self_use_bias self then
            (case view result [int b, int (shape result ! 1), -1] of
               Inl e \<Rightarrow> Inl e
             | Inr r3 \<Rightarrow>
                 (case for_loop [0..<self_out_channels self] (bias_body self) r3 of
                    Inl e \<Rightarrow> Inl e
                  | Inr r3' \<Rightarrow> view r3' (map int (shape result))))
          else Inr result)"
  unfolding stack_and_bias_def Let_def bias_body_def by simp

lemma bias_loop:
  fixes r :: "'a::comm_monoid_add tensor"
  assumes "shape r = [b, c, m]" "wf_tensor r" "cout \<le> c"
    and "self_bias self = Some bt" "shape bt = [nb]" "wf_tensor bt" "cout \<le> nb"
  shows "for_loop [0..<cout] (bias_body self) r =
           Inr (tabulate [b, c, m]
                  (\<lambda>idx. if idx ! 1 < cout then elem r idx + elem bt [idx ! 1] else elem r idx))"
  using assms(3,7)
proof (induction cout)
  case 0
  have "tabulate [b, c, m] (elem r) = r"
    using tabulate_elem[OF assms(2)] assms(1) by simp
  then show ?case by simp
next
  case (Suc k)
  let ?rk = "tabulate [b, c, m]
               (\<lambda>idx. if idx ! 1 < k then elem r idx + elem bt [idx ! 1] else elem r idx)"
  from Suc have IH: "for_loop [0..<k] (bias_body self) r = Inr ?rk" by simp
  have "bias_body self k ?rk =
          Inr (tabulate [b, c, m]
                 (\<lambda>idx. if idx ! 1 = k then elem ?rk idx + elem bt [k] else elem ?rk idx))"
    using Suc.prems assms(4-6)
    by (simp add: bias_body_def bias_at_eq add_channel_eq del: One_nat_def)
  also have "tabulate [b, c, m]
                 (\<lambda>idx. if idx ! 1 = k then elem ?rk idx + elem bt [k] else elem ?rk idx) =
             tabulate [b, c, m]
                  (\<lambda>idx. if idx ! 1 < Suc k then elem r idx + elem bt [idx ! 1] else elem r idx)"
    by (rule tabulate_cong) (auto simp: elem_tabulate)
  finally show ?case
    by (simp add: for_loop_append IH)
qed

lemma stack_and_bias_bias:
  fixes R :: "'a::comm_monoid_add tensor"
  assumes ub: "self_use_bias self" and st: "torch_stack frame_results = Inr R"
    and sh: "shape R = b # c # rest" and wf: "wf_tensor R"
    and pos: "0 < b" "0 < c" and cout: "self_out_channels self \<le> c"
    and bias: "self_bias self = Some bt" "shape bt = [nb]" "wf_tensor bt"
              "self_out_channels self \<le> nb"
  shows "stack_and_bias self b frame_results =
           Inr (tabulate (b # c # rest)
                  (\<lambda>idx. if idx ! 1 < self_out_channels self
                         then elem R idx + elem bt [idx ! 1] else elem R idx))"
proof -
  let ?P = "prod_list rest"
  let ?R3 = "\<lparr>shape = [b, c, ?P], data = data R\<rparr>"
  have numel: "length (data R) = b * c * ?P"
    using wf sh by (simp add: wf_tensor_def mult.assoc)
  have v: "view R [int b, int (shape R ! 1), -1] = Inr ?R3"
    using view_merge_iff[of R "[b, c]" ?R3] numel pos sh by simp
  have wf3: "wf_tensor ?R3" using numel by (simp add: wf_tensor_def)
  let ?g = "\<lambda>idx. if idx ! 1 < self_out_channels self
                   then elem ?R3 idx + elem bt [idx ! 1] else elem ?R3 idx"
  have loop: "for_loop [0..<self_out_channels self] (bias_body self) ?R3 =
                Inr (tabulate [b, c, ?P] ?g)"
    by (rule bias_loop[OF _ wf3 cout bias]) simp
  have vback: "view (tabulate [b, c, ?P] ?g) (map int (shape R)) =
                Inr \<lparr>shape = b # c # rest, data = data (tabulate [b, c, ?P] ?g)\<rparr>"
    unfolding sh by (rule view_exact) (simp add: mult.assoc)
  have "\<lparr>shape = [b, c] @ rest, data = data (tabulate ([b, c] @ [?P]) ?g)\<rparr> =
          tabulate ([b, c] @ rest)
            (\<lambda>idx. ?g (take (length [b, c]) idx @ [flat rest (drop (length [b, c]) idx)]))"
    by (rule reshape_merged)
  also have "\<dots> = tabulate (b # c # rest)
                  (\<lambda>idx. if idx ! 1 < self_out_channels self
                         then elem R idx + elem bt [idx ! 1] else elem R idx)"
    unfolding append_Cons append_Nil
  proof (rule tabulate_cong)
    fix idx assume "valid_index (b # c # rest) idx"
    then obtain ib ic r where idx: "idx = ib # ic # r" "ib < b" "ic < c" "valid_index rest r"
      using valid_index_3 by blast
    have "elem \<lparr>shape = [b, c] @ [?P], data = data R\<rparr> ([ib, ic] @ [flat rest r]) =
          elem R ([ib, ic] @ unflat rest (flat rest r))"
      by (rule elem_merged) (use sh flat_lt[OF idx(4)] in simp_all)
    then have "elem ?R3 [ib, ic, flat rest r] = elem R (ib # ic # r)"
      using idx by (simp add: unflat_flat)
    then show "?g (take (length [b, c]) idx @ [flat rest (drop (length [b, c]) idx)]) =
          (if idx ! 1 < self_out_channels self
           then elem R idx + elem bt [idx ! 1] else elem R idx)"
      using idx by simp
  qed
  finally show ?thesis
    using ub st v loop vback by (simp add: stack_and_bias_eq)
qed

lemma stack_and_bias_Inr:
  assumes "stack_and_bias self b frame_results = Inr y"
  shows "\<exists>R. torch_stack frame_results = Inr R \<and>
           (self_use_bias self \<longrightarrow> 0 < b \<and> 0 < shape R ! 1) \<and>
           (\<not> self_use_bias self \<longrightarrow> y = R)"
proof -
  from assms obtain R where R: "torch_stack frame_results = Inr R"
    by (auto simp: stack_and_bias_eq split: sum.splits)
  have "0 < b \<and> 0 < shape R ! 1" if "self_use_bias self"
  proof -
    from assms R that obtain r3 where "view R [int b, int (shape R ! 1), -1] = Inr r3"
      by (auto simp: stack_and_bias_eq split: sum.splits)
    with view_merge_iff[of R "[b, shape R ! 1]" r3] show ?thesis by simp
  qed
  with assms R show ?thesis
    by (auto simp: stack_and_bias_eq)
qed

subsection \<open>The result of the frame loop\<close>

definition overlap_sum ::
  "(nat \<Rightarrow> nat \<Rightarrow> nat option) \<Rightarrow> ('a::comm_monoid_add tensor \<Rightarrow> error + 'a tensor) list \<Rightarrow>
   'a tensor \<Rightarrow> nat \<Rightarrow> nat \<Rightarrow> nat list \<Rightarrow> nat \<Rightarrow> nat \<Rightarrow> nat \<Rightarrow> nat list \<Rightarrow> 'a" where
  "overlap_sum tgt layers input b c_i size_i K n_i out idx =
     sum_list (map (contribution tgt layers input b c_i size_i out idx)
                 (List.product [0..<K] [0..<n_i]))"

definition bias_value :: "'a::zero ndconv \<Rightarrow> nat \<Rightarrow> 'a" where
  "bias_value self co =
     (if self_use_bias self then elem (the (self_bias self)) [co] else 0)"

lemma valid_index_stack:
  assumes "valid_index (b # c # n # rest) idx"
  shows "idx ! 0 < b \<and> idx ! 1 < c \<and> idx ! 2 < n \<and>
         valid_index (b # c # rest) (take 2 idx @ drop 3 idx)"
proof -
  from assms obtain ib ic k r where "idx = ib # ic # k # r" "ib < b" "ic < c" "k < n"
    "valid_index rest r"
    by (auto simp: valid_index_Cons)
  then show ?thesis by simp
qed

lemma frames_loop_stack:
  fixes self :: "'a::comm_semiring_0 ndconv"
  assumes so: "size_o = so0 # so_rest" "1 \<le> so0" "\<forall>d \<in> set so_rest. 0 \<le> d"
    and K: "K = nat (self_kernel_size self ! 0)" and n_i: "n_i = size_i ! 0"
    and cout: "cout = self_out_channels self"
    and tgt_range: "\<And>i j out. i < K \<Longrightarrow> j < n_i \<Longrightarrow> tgt i j = Some out \<Longrightarrow> out < nat so0"
    and calls: "\<And>i j out. i < K \<Longrightarrow> j < n_i \<Longrightarrow> tgt i j = Some out \<Longrightarrow>
                  \<exists>fc. child_call layers input b c_i size_i i j = Inr fc \<and>
                       shape fc = b # cout # map nat so_rest \<and> wf_tensor fc"
  shows "\<exists>fr. frames_loop tgt self layers input b c_i size_i size_o = stack_and_bias self b fr \<and>
           torch_stack fr =
             Inr (tabulate (b # cout # nat so0 # map nat so_rest)
                    (\<lambda>idx. overlap_sum tgt layers input b c_i size_i K n_i (idx ! 2)
                              (take 2 idx @ drop 3 idx)))"
proof -
  let ?sh = "b # cout # map nat so_rest"
  let ?n = "nat so0"
  let ?ps = "List.product [0..<K] [0..<n_i]"
  let ?V = "\<lambda>out idx. overlap_sum tgt layers input b c_i size_i K n_i out idx"
  have p0: "py_index size_o 0 = Inr so0"
    by (simp add: so py_index_def)
  have z: "torch_zeros (int b # int (self_out_channels self) # drop 1 size_o) =
             Inr (tabulate ?sh (\<lambda>_. 0))"
    using so by (simp add: torch_zeros_iff cout)
  have "\<exists>st'. for_loop ?ps (loop_body tgt layers input b c_i size_i)
                 (replicate ?n (tabulate ?sh (\<lambda>_. 0)), replicate ?n None) = Inr st' \<and>
               frames_inv ?sh ?n
                 (\<lambda>out idx. 0 + sum_list (map (contribution tgt layers input b c_i size_i out idx) ?ps))
                 st'"
    by (rule overlap_add_loop[OF frames_inv_init]) (use tgt_range calls in auto)
  then obtain st' where
    loop: "for_loop ?ps (loop_body tgt layers input b c_i size_i)
             (replicate ?n (tabulate ?sh (\<lambda>_. 0)), replicate ?n None) = Inr st'"
    and inv: "frames_inv ?sh ?n ?V st'"
    by (auto simp: overlap_sum_def)
  from inv have len: "length (fst st') = ?n"
    and frames: "\<And>out. out < ?n \<Longrightarrow> shape (fst st' ! out) = ?sh"
    and vals: "\<And>out idx. out < ?n \<Longrightarrow> valid_index ?sh idx \<Longrightarrow> elem (fst st' ! out) idx = ?V out idx"
    by (auto simp: frames_inv_def)
  have ne: "fst st' \<noteq> []" using len so(2) by auto
  have all: "\<forall>u \<in> set (fst st'). shape u = ?sh"
    using frames len by (auto simp: in_set_conv_nth)
  let ?R = "tabulate (take 2 ?sh @ [length (fst st')] @ drop 2 ?sh)
              (\<lambda>idx. elem (fst st' ! (idx ! 2)) (take 2 idx @ drop 3 idx))"
  have stack: "torch_stack (fst st') = Inr ?R"
    by (rule torch_stack_eq[OF ne all]) simp
  have R: "?R = tabulate (b # cout # ?n # map nat so_rest)
                  (\<lambda>idx. ?V (idx ! 2) (take 2 idx @ drop 3 idx))"
  proof -
    have e: "take 2 ?sh @ [length (fst st')] @ drop 2 ?sh = b # cout # ?n # map nat so_rest"
      by (simp add: len)
    show ?thesis
      unfolding e
    proof (rule tabulate_cong)
      fix idx assume "valid_index (b # cout # ?n # map nat so_rest) idx"
      from valid_index_stack[OF this]
      show "elem (fst st' ! (idx ! 2)) (take 2 idx @ drop 3 idx) =
            ?V (idx ! 2) (take 2 idx @ drop 3 idx)"
        by (simp add: vals)
    qed
  qed
  have fl: "frames_loop tgt self layers input b c_i size_i size_o = stack_and_bias self b (fst st')"
    unfolding frames_loop_product
    by (simp only: p0 z loop[unfolded K n_i] sum.case)
  from fl stack R show ?thesis by metis
qed

lemma stack_and_bias_value:
  fixes self :: "'a::comm_semiring_0 ndconv"
  assumes stack: "torch_stack fr = Inr (tabulate (b # cout # rest) f)"
    and cout: "cout = self_out_channels self"
    and bias: "self_use_bias self \<Longrightarrow>
                 0 < b \<and> 0 < cout \<and>
                 (\<exists>bt. self_bias self = Some bt \<and> shape bt = [cout] \<and> wf_tensor bt)"
  shows "stack_and_bias self b fr =
           Inr (tabulate (b # cout # rest) (\<lambda>idx. f idx + bias_value self (idx ! 1)))"
proof (cases "self_use_bias self")
  case False
  then have "stack_and_bias self b fr = Inr (tabulate (b # cout # rest) f)"
    using stack by (simp add: stack_and_bias_eq)
  moreover have "tabulate (b # cout # rest) f =
                 tabulate (b # cout # rest) (\<lambda>idx. f idx + bias_value self (idx ! 1))"
    using False by (simp add: bias_value_def)
  ultimately show ?thesis by simp
next
  case True
  let ?R = "tabulate (b # cout # rest) f"
  from bias[OF True] obtain bt where
    pos: "0 < b" "0 < cout" and bt: "self_bias self = Some bt" "shape bt = [cout]" "wf_tensor bt"
    by blast
  have "stack_and_bias self b fr =
         Inr (tabulate (b # cout # rest)
                (\<lambda>idx. if idx ! 1 < self_out_channels self
                       then elem ?R idx + elem bt [idx ! 1] else elem ?R idx))"
    by (rule stack_and_bias_bias[OF True stack _ _ pos _ bt]) (simp_all add: cout)
  moreover have "tabulate (b # cout # rest)
                (\<lambda>idx. if idx ! 1 < self_out_channels self
                       then elem ?R idx + elem bt [idx ! 1] else elem ?R idx) =
             tabulate (b # cout # rest) (\<lambda>idx. f idx + bias_value self (idx ! 1))"
  proof (rule tabulate_cong)
    fix idx assume v: "valid_index (b # cout # rest) idx"
    then have "idx ! 1 < self_out_channels self"
      by (auto simp: valid_index_Cons cout)
    then show "(if idx ! 1 < self_out_channels self
                then elem ?R idx + elem bt [idx ! 1] else elem ?R idx) =
               f idx + bias_value self (idx ! 1)"
      using v True bt by (simp add: bias_value_def elem_tabulate del: One_nat_def)
  qed
  ultimately show ?thesis by simp
qed

lemma frames_loop_succ:
  fixes self :: "'a::comm_semiring_0 ndconv"
  assumes so: "size_o = so0 # so_rest" "1 \<le> so0" "\<forall>d \<in> set so_rest. 0 \<le> d"
    and K: "K = nat (self_kernel_size self ! 0)" and n_i: "n_i = size_i ! 0"
    and cout: "cout = self_out_channels self"
    and tgt_range: "\<And>i j out. i < K \<Longrightarrow> j < n_i \<Longrightarrow> tgt i j = Some out \<Longrightarrow> out < nat so0"
    and calls: "\<And>i j out. i < K \<Longrightarrow> j < n_i \<Longrightarrow> tgt i j = Some out \<Longrightarrow>
                  \<exists>fc. child_call layers input b c_i size_i i j = Inr fc \<and>
                       shape fc = b # cout # map nat so_rest \<and> wf_tensor fc"
    and bias: "self_use_bias self \<Longrightarrow>
                 0 < b \<and> 0 < cout \<and>
                 (\<exists>bt. self_bias self = Some bt \<and> shape bt = [cout] \<and> wf_tensor bt)"
  shows "frames_loop tgt self layers input b c_i size_i size_o =
           Inr (tabulate (b # cout # nat so0 # map nat so_rest)
                  (\<lambda>idx. overlap_sum tgt layers input b c_i size_i K n_i (idx ! 2)
                            (take 2 idx @ drop 3 idx) + bias_value self (idx ! 1)))"
proof -
  have "\<exists>fr. frames_loop tgt self layers input b c_i size_i size_o = stack_and_bias self b fr \<and>
           torch_stack fr =
             Inr (tabulate (b # cout # nat so0 # map nat so_rest)
                    (\<lambda>idx. overlap_sum tgt layers input b c_i size_i K n_i (idx ! 2)
                              (take 2 idx @ drop 3 idx)))"
    by (rule frames_loop_stack[where tgt=tgt, OF so K n_i cout]) (use tgt_range in blast, use calls in blast)
  then obtain fr where
    fl: "frames_loop tgt self layers input b c_i size_i size_o = stack_and_bias self b fr"
    and st: "torch_stack fr =
             Inr (tabulate (b # cout # nat so0 # map nat so_rest)
                    (\<lambda>idx. overlap_sum tgt layers input b c_i size_i K n_i (idx ! 2)
                              (take 2 idx @ drop 3 idx)))"
    by blast
  show ?thesis
    unfolding fl by (rule stack_and_bias_value[OF st cout bias])
qed

lemma loop_length:
  "for_loop ps (loop_body tgt layers input b c_i size_i) st = Inr st' \<Longrightarrow>
   length (fst st') = length (fst st)"
proof (induction ps arbitrary: st)
  case Nil
  then show ?case by simp
next
  case (Cons ij ps)
  from Cons.prems obtain st1 where
    b: "loop_body tgt layers input b c_i size_i ij st = Inr st1"
    and r: "for_loop ps (loop_body tgt layers input b c_i size_i) st1 = Inr st'"
    by (auto split: sum.splits)
  obtain fr em where st: "st = (fr, em)" by (cases st)
  from b have "length (fst st1) = length (fst st)"
    unfolding loop_body_def st convolve_frame_eq
    by (auto split: option.splits sum.splits if_splits)
  with Cons.IH[OF r] show ?case by simp
qed

lemma frames_loop_char:
  fixes self :: "'a::comm_semiring_0 ndconv"
  assumes ok: "frames_loop tgt self layers input b c_i size_i size_o = Inr y"
    and K: "K = nat (self_kernel_size self ! 0)" and n_i: "n_i = size_i ! 0"
    and cout: "cout = self_out_channels self"
    and tgt_range: "\<And>i j out. i < K \<Longrightarrow> j < n_i \<Longrightarrow> tgt i j = Some out \<Longrightarrow> int out < hd size_o"
    and H: "\<And>i j fc. child_call layers input b c_i size_i i j = Inr fc \<Longrightarrow>
              shape fc = b # cout # map nat (drop 1 size_o) \<and> wf_tensor fc"
    and bias: "self_use_bias self \<Longrightarrow>
                 \<exists>bt. self_bias self = Some bt \<and> shape bt = [cout] \<and> wf_tensor bt"
  shows "size_o \<noteq> [] \<and> 1 \<le> hd size_o \<and> (\<forall>d \<in> set (drop 1 size_o). 0 \<le> d) \<and>
         (self_use_bias self \<longrightarrow> 0 < b \<and> 0 < cout) \<and>
         (\<forall>i < K. \<forall>j < n_i. \<forall>out. tgt i j = Some out \<longrightarrow>
            (\<exists>fc. child_call layers input b c_i size_i i j = Inr fc)) \<and>
         y = tabulate (b # cout # nat (hd size_o) # map nat (drop 1 size_o))
               (\<lambda>idx. overlap_sum tgt layers input b c_i size_i K n_i (idx ! 2)
                         (take 2 idx @ drop 3 idx) + bias_value self (idx ! 1))"
proof -
  let ?ps = "List.product [0..<K] [0..<n_i]"
  from ok obtain so0 z st where
    p0: "py_index size_o 0 = Inr so0"
    and z: "torch_zeros (int b # int (self_out_channels self) # drop 1 size_o) = Inr z"
    and loop: "for_loop ?ps (loop_body tgt layers input b c_i size_i)
                 (replicate (nat so0) z, replicate (nat so0) None) = Inr st"
    and sb: "stack_and_bias self b (fst st) = Inr y"
    unfolding frames_loop_product K n_i by (auto split: sum.splits)
  from py_index_0_Inr[OF p0] obtain so_rest where so: "size_o = so0 # so_rest"
    by (cases size_o) auto
  from z so have nonneg: "\<forall>d \<in> set so_rest. 0 \<le> d"
    by (auto simp: torch_zeros_iff)
  from stack_and_bias_Inr[OF sb] obtain R where R: "torch_stack (fst st) = Inr R"
    and Rpos: "self_use_bias self \<longrightarrow> 0 < b \<and> 0 < shape R ! 1"
    by blast
  from torch_stack_Inr[OF R] loop_length[OF loop] have so0: "1 \<le> so0"
    by (cases "fst st") auto
  have calls: "\<exists>fc. child_call layers input b c_i size_i i j = Inr fc \<and>
                 shape fc = b # cout # map nat so_rest \<and> wf_tensor fc"
    if "i < K" "j < n_i" "tgt i j = Some out" for i j out
  proof -
    from that have "(i, j) \<in> set ?ps" by simp
    from overlap_add_calls[OF loop this that(3)] obtain fc where
      "child_call layers input b c_i size_i i j = Inr fc" by blast
    with H[OF this] so show ?thesis by simp
  qed
  have range: "out < nat so0" if "i < K" "j < n_i" "tgt i j = Some out" for i j out
    using tgt_range[OF that] so by simp
  have "\<exists>fr. frames_loop tgt self layers input b c_i size_i size_o = stack_and_bias self b fr \<and>
           torch_stack fr =
             Inr (tabulate (b # cout # nat so0 # map nat so_rest)
                    (\<lambda>idx. overlap_sum tgt layers input b c_i size_i K n_i (idx ! 2)
                              (take 2 idx @ drop 3 idx)))"
    by (rule frames_loop_stack[where tgt=tgt, OF so so0 nonneg K n_i cout]) (use range in blast, use calls in blast)
  then obtain fr where
    fl: "frames_loop tgt self layers input b c_i size_i size_o = stack_and_bias self b fr"
    and st: "torch_stack fr =
             Inr (tabulate (b # cout # nat so0 # map nat so_rest)
                    (\<lambda>idx. overlap_sum tgt layers input b c_i size_i K n_i (idx ! 2)
                              (take 2 idx @ drop 3 idx)))"
    by blast
  from fl ok have sb': "stack_and_bias self b fr = Inr y" by simp
  have pos: "0 < b \<and> 0 < cout" if "self_use_bias self"
  proof -
    from stack_and_bias_Inr[OF sb'] that st show ?thesis by auto
  qed
  have "stack_and_bias self b fr =
          Inr (tabulate (b # cout # nat so0 # map nat so_rest)
                 (\<lambda>idx. overlap_sum tgt layers input b c_i size_i K n_i (idx ! 2)
                           (take 2 idx @ drop 3 idx) + bias_value self (idx ! 1)))"
    by (rule stack_and_bias_value[OF st cout]) (use pos bias in blast)
  with sb' have y: "y = tabulate (b # cout # nat so0 # map nat so_rest)
                 (\<lambda>idx. overlap_sum tgt layers input b c_i size_i K n_i (idx ! 2)
                           (take 2 idx @ drop 3 idx) + bias_value self (idx ! 1))"
    by simp
  have c: "\<forall>i < K. \<forall>j < n_i. \<forall>out. tgt i j = Some out \<longrightarrow>
            (\<exists>fc. child_call layers input b c_i size_i i j = Inr fc)"
    using calls by blast
  from so so0 nonneg pos c y show ?thesis by simp
qed

subsection \<open>Sizes of the output\<close>

lemma py_index_nat:
  "py_index xs (int x) = (if x < length xs then Inr (xs ! x) else Inl IndexError)"
  by (simp add: py_index_def)

lemma collect_map_Inr: "collect (map Inr vs) = Inr vs"
  by (induction vs) simp_all

lemma collect_Inr_D: "collect rs = Inr vs \<Longrightarrow> rs = map Inr vs"
proof (induction rs arbitrary: vs)
  case Nil
  then show ?case by simp
next
  case (Cons r rs)
  from Cons.prems obtain v ws where r: "r = Inr v" and c: "collect rs = Inr ws" and vs: "vs = v # ws"
    by (auto split: sum.splits)
  from Cons.IH[OF c] r vs show ?case by simp
qed

lemma collect_Inr: "collect rs = Inr vs \<longleftrightarrow> rs = map Inr vs"
  using collect_Inr_D collect_map_Inr by blast

lemma collect_Inl: "collect rs = Inl e \<Longrightarrow> Inl e \<in> set rs"
proof (induction rs)
  case Nil
  then show ?case by simp
next
  case (Cons r rs)
  then show ?case
    by (simp split: sum.splits)
qed

lemma list_comp_Inr:
  "list_comp n f = Inr ys \<longleftrightarrow> length ys = n \<and> (\<forall>x < n. f x = Inr (ys ! x))"
  unfolding list_comp_def collect_Inr
  using list_eq_iff_nth_eq[of "map f [0..<n]" "map Inr ys"] by auto

lemma list_comp_Inl: "list_comp n f = Inl e \<Longrightarrow> \<exists>x < n. f x = Inl e"
  unfolding list_comp_def by (drule collect_Inl) auto

lemma conv_sizes_Inr:
  "conv_sizes size_i pd ks st = Inr so \<longleftrightarrow>
     length so = length size_i \<and>
     (\<forall>x < length size_i. x < length pd \<and> x < length ks \<and> x < length st \<and> st ! x \<noteq> 0 \<and>
        so ! x = (int (size_i ! x) + 2 * pd ! x - ks ! x) div st ! x + 1)"
proof -
  have body: "(case py_index pd (int x) of
              Inl e \<Rightarrow> Inl e
            | Inr p \<Rightarrow>
                (case py_index ks (int x) of
                   Inl e \<Rightarrow> Inl e
                 | Inr k \<Rightarrow>
                     (case py_index st (int x) of
                        Inl e \<Rightarrow> Inl e
                      | Inr s \<Rightarrow>
                          if s = 0 then Inl ZeroDivisionError
                          else Inr ((int (size_i ! x) + 2 * p - k) div s + 1)))) = Inr v \<longleftrightarrow>
        x < length pd \<and> x < length ks \<and> x < length st \<and> st ! x \<noteq> 0 \<and>
        v = (int (size_i ! x) + 2 * pd ! x - ks ! x) div st ! x + 1" for x v
    by (auto simp: py_index_nat)
  show ?thesis
    unfolding conv_sizes_def list_comp_Inr body by blast
qed

lemma transpose_sizes_Inr:
  "transpose_sizes size_i pd ks st = Inr so \<longleftrightarrow>
     length so = length size_i \<and>
     (\<forall>x < length size_i. x < length pd \<and> x < length ks \<and> x < length st \<and>
        so ! x = (int (size_i ! x) - 1) * st ! x - 2 * pd ! x + ks ! x)"
proof -
  have body: "(case py_index st (int x) of
              Inl e \<Rightarrow> Inl e
            | Inr s \<Rightarrow>
                (case py_index pd (int x) of
                   Inl e \<Rightarrow> Inl e
                 | Inr p \<Rightarrow>
                     (case py_index ks (int x) of
                        Inl e \<Rightarrow> Inl e
                      | Inr k \<Rightarrow> Inr ((int (size_i ! x) - 1) * s - 2 * p + (k - 1) + 1)))) = Inr v \<longleftrightarrow>
        x < length pd \<and> x < length ks \<and> x < length st \<and>
        v = (int (size_i ! x) - 1) * st ! x - 2 * pd ! x + ks ! x" for x v
    by (auto simp: py_index_nat)
  show ?thesis
    unfolding transpose_sizes_def list_comp_Inr body by blast
qed

subsection \<open>The base primitives\<close>

definition prim_sizes :: "'a conv_prim \<Rightarrow> nat list \<Rightarrow> int list" where
  "prim_sizes p size_i =
     map (\<lambda>a. if class_transposed (p_class p)
              then (int (size_i ! a) - 1) * p_stride p ! a - 2 * p_padding p ! a + p_kernel_size p ! a
              else (int (size_i ! a) + 2 * p_padding p ! a - p_kernel_size p ! a) div p_stride p ! a + 1)
       [0..<class_dims (p_class p)]"

definition conv_accepts :: "'a::comm_semiring_0 conv_prim \<Rightarrow> 'a tensor \<Rightarrow> bool" where
  "conv_accepts p x \<longleftrightarrow>
     length (shape x) = class_dims (p_class p) + 2 \<and>
     length (p_kernel_size p) = class_dims (p_class p) \<and>
     length (p_stride p) = class_dims (p_class p) \<and>
     length (p_padding p) = class_dims (p_class p) \<and>
     shape x ! 1 = p_in_channels p \<and> p_groups p \<noteq> 0 \<and>
     shape (p_weight p) = weight_shape p \<and> wf_tensor (p_weight p) \<and>
     (\<forall>bt. p_bias p = Some bt \<longrightarrow> shape bt = [p_out_channels p] \<and> wf_tensor bt) \<and>
     (\<forall>s \<in> set (p_stride p). 0 < s) \<and> (\<forall>q \<in> set (p_padding p). 0 \<le> q) \<and>
     (\<forall>k \<in> set (p_kernel_size p). 0 < k) \<and>
     (if class_transposed (p_class p)
      then p_padding_mode p = ''zeros'' \<and> (\<forall>d \<in> set (prim_sizes p (drop 2 (shape x))). 0 < d)
      else (\<forall>a < class_dims (p_class p).
              pad_ok (p_padding_mode p) (drop 2 (shape x) ! a) (p_padding p ! a) (p_padding p ! a) \<and>
              p_kernel_size p ! a \<le> int (drop 2 (shape x) ! a) + 2 * p_padding p ! a))"

lemma conv_forward_cases:
  "conv_forward p x =
     (if conv_accepts p x
      then Inr (tabulate (shape x ! 0 # p_out_channels p # map nat (prim_sizes p (drop 2 (shape x))))
                  (if class_transposed (p_class p) then conv_transpose_out p x else conv_out p x))
      else Inl RuntimeError)"
proof (cases "class_transposed (p_class p)")
  case True
  then show ?thesis
    unfolding conv_forward_def conv_accepts_def prim_sizes_def Let_def
    by (auto split: option.splits simp: not_less not_le)
next
  case False
  then show ?thesis
    unfolding conv_forward_def conv_accepts_def prim_sizes_def Let_def
    by (auto split: option.splits simp: not_less not_le)
qed

lemma conv_forward_Inr:
  assumes "conv_forward p x = Inr y"
  shows "conv_accepts p x \<and> wf_tensor y \<and>
         shape y = shape x ! 0 # p_out_channels p # map nat (prim_sizes p (drop 2 (shape x))) \<and>
         y = tabulate (shape y)
               (if class_transposed (p_class p) then conv_transpose_out p x else conv_out p x)"
  using assms by (auto simp: conv_forward_cases split: if_splits)

lemma conv_forward_Inl: "conv_forward p x = Inl e \<Longrightarrow> e = RuntimeError"
  by (auto simp: conv_forward_cases split: if_splits)

lemma ConvNd_forward_eq:
  "ConvNd_forward op = ConvNd_apply op (map ConvNd_layer (self_conv_layers op))"
  by (cases op) simp

lemma ConvTransposeNd_forward_eq:
  "ConvTransposeNd_forward rt op =
     ConvTransposeNd_apply rt op (map (ConvTransposeNd_layer rt) (self_conv_layers op))"
  by (cases op) simp

subsection \<open>What the constructors return\<close>

definition built_prim :: "bool \<Rightarrow> 'a::comm_semiring_0 ndconv \<Rightarrow> 'a conv_prim \<Rightarrow> bool" where
  "built_prim tr op p \<longleftrightarrow>
     py_index (conv_table tr) (self_num_dims op - 2) = Inr (p_class p) \<and>
     class_transposed (p_class p) = tr \<and>
     p_in_channels p = self_in_channels op \<and>
     p_out_channels p = self_out_channels op \<and>
     p_kernel_size p = drop 1 (self_kernel_size op) \<and>
     p_stride p = drop 1 (self_stride op) \<and>
     p_padding p = drop 1 (self_padding op) \<and>
     p_padding_mode p = self_padding_mode op \<and>
     p_groups p = self_groups op \<and>
     p_bias p = None \<and>
     shape (p_weight p) = weight_shape p \<and> wf_tensor (p_weight p) \<and>
     0 < p_groups p \<and>
     p_in_channels p mod p_groups p = 0 \<and> p_out_channels p mod p_groups p = 0 \<and>
     p_padding_mode p \<in> set valid_padding_modes \<and>
     (tr \<longrightarrow> p_padding_mode p = ''zeros'')"

definition built :: "bool \<Rightarrow> 'a::comm_semiring_0 ndconv \<Rightarrow> bool" where
  "built tr op \<longleftrightarrow>
     int (length (self_kernel_size op)) = self_num_dims op \<and>
     length (self_stride op) = length (self_kernel_size op) \<and>
     length (self_padding op) = length (self_kernel_size op) \<and>
     self_kernel_size op \<noteq> [] \<and>
     length (self_conv_layers op) = nat (hd (self_kernel_size op)) \<and>
     (self_use_bias op \<longrightarrow>
        (\<exists>bt. self_bias op = Some bt \<and> shape bt = [self_out_channels op] \<and> wf_tensor bt)) \<and>
     (\<not> self_use_bias op \<longrightarrow> self_bias op = None) \<and>
     (\<forall>l \<in> set (self_conv_layers op).
        \<exists>p. l = Base p \<and> built_prim tr op p)"

lemma nn_Conv_weight:
  assumes "nn_Conv eng cls cin cout wb ks st pd pm g n = (Inr p, m)"
  shows "shape (p_weight p) = weight_shape p \<and> wf_tensor (p_weight p)"
  using assms by (auto simp: nn_Conv_def weight_shape_def split: if_splits)

lemma table_transposed:
  "py_index (conv_table tr) i = Inr c \<Longrightarrow> class_transposed c = tr"
  by (auto simp: py_index_def conv_table_def nth_Cons split: if_splits nat.splits)

lemma Nd_init_fields:
  assumes "Nd_init tr eng a n = (Inr op, n')"
  shows "self_rank op = rank a \<and> self_in_channels op = in_channels a \<and>
         self_out_channels op = out_channels a \<and> self_num_dims op = num_dims a \<and>
         self_kernel_size op = as_tuple (kernel_size a) (num_dims a) \<and>
         self_stride op = as_tuple (stride a) (num_dims a) \<and>
         self_padding op = as_tuple (padding a) (num_dims a) \<and>
         self_padding_mode op = padding_mode a \<and> self_groups op = groups a \<and>
         self_use_bias op = use_bias a \<and>
         int (length (self_kernel_size op)) = num_dims a \<and>
         int (length (self_stride op)) = num_dims a \<and>
         int (length (self_padding op)) = num_dims a \<and>
         dilation a = 1 \<and>
         (use_bias a \<longrightarrow>
            (\<exists>bt. self_bias op = Some bt \<and> shape bt = [out_channels a] \<and> wf_tensor bt)) \<and>
         (\<not> use_bias a \<longrightarrow> self_bias op = None)"
  using assms
  by (auto simp: Nd_init_unfold Let_def fill_in_place_def
           split: sum.splits if_splits prod.splits option.splits)

lemma Nd_init_weights:
  assumes "Nd_init tr eng a n = (Inr op, n')"
  shows "\<forall>l \<in> set (self_conv_layers op).
           shape (p_weight (the_prim l)) = weight_shape (the_prim l) \<and>
           wf_tensor (p_weight (the_prim l)) \<and> 0 < groups a \<and>
           in_channels a mod groups a = 0 \<and> out_channels a mod groups a = 0 \<and>
           padding_mode a \<in> set valid_padding_modes \<and>
           (class_transposed (p_class (the_prim l)) \<longrightarrow> padding_mode a = ''zeros'')"
proof -
  let ?ks = "as_tuple (kernel_size a) (num_dims a)"
  let ?mk = "\<lambda>conv_f m.
       case nn_Conv eng conv_f (in_channels a) (out_channels a) False
              (drop 1 ?ks) (drop 1 (as_tuple (stride a) (num_dims a)))
              (drop 1 (as_tuple (padding a) (num_dims a)))
              (padding_mode a) (groups a) m of
         (Inl e, m') \<Rightarrow> (Inl e, m')
       | (Inr p, m') \<Rightarrow>
           (Inr (Base (case kernel_initializer a of
                         None \<Rightarrow> p
                       | Some f \<Rightarrow> p\<lparr>p_weight := fill_in_place f (p_weight p)\<rparr>)), m')"
  from assms obtain conv_f ndl layers where
    bl: "build_layers (nat ndl) (?mk conv_f) n = (Inr layers, n')" and
    ly: "self_conv_layers op = layers"
    by (auto simp: Nd_init_unfold Let_def split: sum.splits if_splits prod.splits)
  from build_layers_Inr[OF bl] have
    each: "\<forall>l \<in> set layers. \<exists>m m'. ?mk conv_f m = (Inr l, m')"
    by blast
  have "shape (p_weight (the_prim l)) = weight_shape (the_prim l) \<and>
        wf_tensor (p_weight (the_prim l)) \<and> 0 < groups a \<and>
        in_channels a mod groups a = 0 \<and> out_channels a mod groups a = 0 \<and>
        padding_mode a \<in> set valid_padding_modes \<and>
        (class_transposed (p_class (the_prim l)) \<longrightarrow> padding_mode a = ''zeros'')"
    if "l \<in> set layers" for l
  proof -
    from each that obtain m m' p where
      c: "nn_Conv eng conv_f (in_channels a) (out_channels a) False
         (drop 1 ?ks) (drop 1 (as_tuple (stride a) (num_dims a)))
         (drop 1 (as_tuple (padding a) (num_dims a)))
         (padding_mode a) (groups a) m = (Inr p, m')"
      and l: "l = Base (case kernel_initializer a of
                          None \<Rightarrow> p
                        | Some f \<Rightarrow> p\<lparr>p_weight := fill_in_place f (p_weight p)\<rparr>)"
      by (fastforce split: prod.splits sum.splits)
    from nn_Conv_Inr[OF c] nn_Conv_weight[OF c] l show ?thesis
      by (auto simp: weight_shape_def fill_in_place_def split: option.splits)
  qed
  with ly show ?thesis by blast
qed

lemma Nd_init_built:
  assumes "Nd_init tr eng a n = (Inr op, n')"
  shows "built tr op"
proof -
  note f = Nd_init_fields[OF assms]
  from Nd_init_Inr[OF assms] obtain conv_f where
    cf: "py_index (conv_table tr) (num_dims a - 2) = Inr conv_f"
    and ne: "as_tuple (kernel_size a) (num_dims a) \<noteq> []"
    and len: "length (self_conv_layers op) = nat (hd (as_tuple (kernel_size a) (num_dims a)))"
    and ch: "\<forall>l \<in> set (self_conv_layers op).
              is_Base l \<and> p_class (the_prim l) = conv_f \<and>
              p_in_channels (the_prim l) = in_channels a \<and>
              p_out_channels (the_prim l) = out_channels a \<and>
              p_kernel_size (the_prim l) = drop 1 (as_tuple (kernel_size a) (num_dims a)) \<and>
              p_stride (the_prim l) = drop 1 (as_tuple (stride a) (num_dims a)) \<and>
              p_padding (the_prim l) = drop 1 (as_tuple (padding a) (num_dims a)) \<and>
              p_padding_mode (the_prim l) = padding_mode a \<and>
              p_groups (the_prim l) = groups a \<and>
              p_bias (the_prim l) = None"
    by blast
  note w = Nd_init_weights[OF assms]
  have lens: "length (self_stride op) = length (self_kernel_size op)"
             "length (self_padding op) = length (self_kernel_size op)"
    using f by linarith+
  have layers: "\<exists>p. l = Base p \<and> built_prim tr op p"
    if l: "l \<in> set (self_conv_layers op)" for l
  proof -
    from ch l obtain p where p: "l = Base p" by (cases l) auto
    from ch[rule_format, OF l] w[rule_format, OF l] f cf table_transposed[OF cf] p
    show ?thesis by (simp add: built_prim_def)
  qed
  have k: "int (length (self_kernel_size op)) = self_num_dims op"
    using f by auto
  have ne': "self_kernel_size op \<noteq> []" using f ne by auto
  have len': "length (self_conv_layers op) = nat (hd (self_kernel_size op))"
    using f len by auto
  have b1: "self_use_bias op \<longrightarrow>
        (\<exists>bt. self_bias op = Some bt \<and> shape bt = [self_out_channels op] \<and> wf_tensor bt)"
    using f by auto
  have b2: "\<not> self_use_bias op \<longrightarrow> self_bias op = None"
    using f by auto
  show ?thesis
    unfolding built_def
    using k lens ne' len' b1 b2 layers by blast
qed

subsection \<open>Calling a child on a slice; padding the leading axis\<close>

lemma child_call_iff:
  assumes wf: "wf_tensor input" and sh: "shape input = b # c # d # rest"
    and i: "i < length ls"
  shows "child_call (map L ls) input b c (d # rest) i j = Inr fc \<longleftrightarrow>
           0 < b \<and> 0 < c \<and> 0 < d \<and> j < d \<and> L (ls ! i) (slice2 input j) = Inr fc"
proof (cases "frame_input input b c (d # rest) j")
  case (Inl e)
  with frame_input_iff[OF wf sh, of j "slice2 input j"] show ?thesis
    by (auto simp: child_call_def)
next
  case (Inr ci)
  with frame_input_iff[OF wf sh, of j ci] i show ?thesis
    by (auto simp: child_call_def py_index_nat)
qed

lemma child_call_index:
  "child_call layers input b c size_i i j = Inr fc \<Longrightarrow> i < length layers"
  by (auto simp: child_call_def py_index_nat split: sum.splits if_splits)

definition pad_axis2 :: "string \<Rightarrow> int \<Rightarrow> 'a::zero tensor \<Rightarrow> 'a tensor" where
  "pad_axis2 mode p0 x =
     tabulate (take 2 (shape x) @ nat (int (shape x ! 2) + 2 * p0) # drop 3 (shape x))
       (\<lambda>idx. case pad_src mode (shape x ! 2) (int (idx ! 2) - p0) of
                Some y \<Rightarrow> elem x (take 2 idx @ y # drop 3 idx)
              | None \<Rightarrow> 0)"

lemma pad_src_lt:
  "pad_ok mode d p0 p0 \<Longrightarrow> mode = ''constant'' \<or> mode = ''reflect'' \<Longrightarrow>
   - p0 \<le> t \<Longrightarrow> t < int d + p0 \<Longrightarrow> pad_src mode d t = Some y \<Longrightarrow> y < d"
  by (auto simp: pad_src_def pad_ok_def split: if_splits)

lemma pad_leading_iff:
  fixes x :: "'a::zero tensor" and self :: "'a ndconv"
  assumes wf: "wf_tensor x" and sh: "shape x = b # c # d # rest"
  defines "mode \<equiv> (if self_padding_mode self = ''zeros'' then ''constant'' else ''reflect'')"
  defines "p0 \<equiv> hd (self_padding self)"
  shows "pad_leading self x = Inr r \<longleftrightarrow>
           self_padding self \<noteq> [] \<and> 0 < b \<and> 0 < c \<and> 0 < d \<and>
           pad_ok mode (prod_list rest) 0 0 \<and> pad_ok mode d p0 p0 \<and>
           r = ((self_padding self)[0 := 0], pad_axis2 mode p0 x)"
proof -
  let ?P = "prod_list rest"
  let ?D = "nat (int d + 2 * p0)"
  have numel: "length (data x) = b * c * d * ?P"
    using wf sh by (simp add: wf_tensor_def mult.assoc)
  have s2: "py_index (shape x) 2 = Inr d"
    by (simp add: py_index_def sh)
  have v1: "view x [int b, int c, int d, -1] = Inr v \<longleftrightarrow>
              b * c * d \<noteq> 0 \<and> v = \<lparr>shape = [b, c, d, ?P], data = data x\<rparr>" for v
    using view_merge_iff[of x "[b, c, d]" v] numel by (auto simp: mult.assoc)
  let ?v = "\<lparr>shape = [b, c, d, ?P], data = data x\<rparr>"
  let ?g = "\<lambda>idx. case (pad_src mode d (int (idx ! 2) - p0), pad_src mode ?P (int (idx ! 3) - 0)) of
                     (Some y, Some x) \<Rightarrow> elem ?v [idx ! 0, idx ! 1, y, x]
                   | _ \<Rightarrow> 0"
  have fp: "F_pad ?v (0, 0, p0, p0) mode =
              (if pad_ok mode ?P 0 0 \<and> pad_ok mode d p0 p0
               then Inr (tabulate [b, c, ?D, ?P] ?g) else Inl RuntimeError)"
    by (simp add: F_pad_def add.commute)
  have pl: "pad_leading self x =
     (case py_index (self_padding self) 0 of
        Inl e \<Rightarrow> Inl e
      | Inr q \<Rightarrow>
          (case view x [int b, int c, int d, -1] of
             Inl e \<Rightarrow> Inl e
           | Inr v \<Rightarrow>
               (case F_pad v (0, 0, q, q) mode of
                  Inl e \<Rightarrow> Inl e
                | Inr v \<Rightarrow>
                    (case view v ((map int (shape x))[2 := int d + 2 * q]) of
                       Inl e \<Rightarrow> Inl e
                     | Inr input' \<Rightarrow> Inr ((self_padding self)[0 := 0], input')))))"
    unfolding pad_leading_def mode_def s2 by (simp add: sh cong: sum.case_cong)
  show ?thesis
  proof (cases "self_padding self \<noteq> [] \<and> b * c * d \<noteq> 0 \<and> pad_ok mode ?P 0 0 \<and> pad_ok mode d p0 p0")
    case False
    then consider "self_padding self = []" | "self_padding self \<noteq> []" "b * c * d = 0"
      | "self_padding self \<noteq> []" "b * c * d \<noteq> 0" "\<not> (pad_ok mode ?P 0 0 \<and> pad_ok mode d p0 p0)"
      by blast
    then have "pad_leading self x \<noteq> Inr r"
    proof cases
      case 1
      then show ?thesis
        by (simp add: pl py_index_def)
    next
      case 2
      then have p: "py_index (self_padding self) 0 = Inr p0"
        by (cases "self_padding self") (simp_all add: py_index_def p0_def)
      from 2 v1 have "\<And>v. view x [int b, int c, int d, -1] \<noteq> Inr v" by blast
      then show ?thesis
        by (auto simp: pl p split: sum.splits)
    next
      case 3
      then have p: "py_index (self_padding self) 0 = Inr p0"
        by (cases "self_padding self") (simp_all add: py_index_def p0_def)
      from 3 v1 have v: "view x [int b, int c, int d, -1] = Inr ?v" by blast
      from 3 fp have "F_pad ?v (0, 0, p0, p0) mode = Inl RuntimeError" by auto
      then show ?thesis
        by (simp add: pl p v)
    qed
    with False show ?thesis by auto
  next
    case True
    then have ne: "self_padding self \<noteq> []" and pos: "0 < b" "0 < c" "0 < d"
      and ok1: "pad_ok mode ?P 0 0" and ok2: "pad_ok mode d p0 p0"
      by auto
    have p: "py_index (self_padding self) 0 = Inr p0"
      using ne by (cases "self_padding self") (simp_all add: py_index_def p0_def)
    have v: "view x [int b, int c, int d, -1] = Inr ?v"
      using v1 pos by simp
    have f: "F_pad ?v (0, 0, p0, p0) mode = Inr (tabulate [b, c, ?D, ?P] ?g)"
      using fp ok1 ok2 by simp
    have nn: "0 \<le> int d + 2 * p0"
      using ok2 by (simp add: pad_ok_def)
    have ish: "(map int (shape x))[2 := int d + 2 * p0] = map int (b # c # ?D # rest)"
      using nn by (simp add: sh)
    have vb: "view (tabulate [b, c, ?D, ?P] ?g) (map int (b # c # ?D # rest)) =
                Inr \<lparr>shape = b # c # ?D # rest, data = data (tabulate [b, c, ?D, ?P] ?g)\<rparr>"
      by (rule view_exact) (simp add: mult.assoc)
    have md: "mode = ''constant'' \<or> mode = ''reflect''"
      by (simp add: mode_def)
    have "\<lparr>shape = [b, c, ?D] @ rest, data = data (tabulate ([b, c, ?D] @ [?P]) ?g)\<rparr> =
            tabulate ([b, c, ?D] @ rest)
              (\<lambda>idx. ?g (take (length [b, c, ?D]) idx @ [flat rest (drop (length [b, c, ?D]) idx)]))"
      by (rule reshape_merged)
    also have "\<dots> = tabulate (b # c # ?D # rest)
                  (\<lambda>idx. case pad_src mode d (int (idx ! 2) - p0) of
                           None \<Rightarrow> 0
                         | Some y \<Rightarrow> elem x (take 2 idx @ y # drop 3 idx))"
      unfolding append_Cons append_Nil
    proof (rule tabulate_cong)
      fix idx assume "valid_index (b # c # ?D # rest) idx"
      then obtain ib ic t r where idx: "idx = ib # ic # t # r" "ib < b" "ic < c" "t < ?D"
        "valid_index rest r"
        by (auto simp: valid_index_Cons)
      have fl: "flat rest r < ?P" by (rule flat_lt[OF idx(5)])
      then have src3: "pad_src mode ?P (int (flat rest r)) = Some (flat rest r)"
        by (simp add: pad_src_def)
      have el: "elem ?v [ib, ic, y, flat rest r] = elem x (ib # ic # y # r)" if "y < d" for y
      proof -
        have "elem \<lparr>shape = [b, c, d] @ [?P], data = data x\<rparr> ([ib, ic, y] @ [flat rest r]) =
              elem x ([ib, ic, y] @ unflat rest (flat rest r))"
          by (rule elem_merged) (use sh fl in simp_all)
        then show ?thesis using idx by (simp add: unflat_flat)
      qed
      show "?g (take (length [b, c, ?D]) idx @ [flat rest (drop (length [b, c, ?D]) idx)]) =
            (case pad_src mode d (int (idx ! 2) - p0) of
               None \<Rightarrow> 0
             | Some y \<Rightarrow> elem x (take 2 idx @ y # drop 3 idx))"
      proof (cases "pad_src mode d (int t - p0)")
        case None
        then show ?thesis using idx by (simp add: src3)
      next
        case (Some y)
        have "y < d"
          by (rule pad_src_lt[OF ok2 md _ _ Some]) (use idx nn in auto)
        with Some el show ?thesis using idx by (simp add: src3)
      qed
    qed
    also have "\<dots> = pad_axis2 mode p0 x"
      by (simp add: pad_axis2_def sh)
    finally have "view (tabulate [b, c, ?D, ?P] ?g) ((map int (shape x))[2 := int d + 2 * p0]) =
                    Inr (pad_axis2 mode p0 x)"
      using vb ish by simp
    then have "pad_leading self x = Inr ((self_padding self)[0 := 0], pad_axis2 mode p0 x)"
      using p v f by (simp add: pl)
    with True show ?thesis by auto
  qed
qed

lemma pad_axis2_shape:
  "shape x = b # c # d # rest \<Longrightarrow>
   shape (pad_axis2 mode p0 x) = b # c # nat (int d + 2 * p0) # rest"
  by (simp add: pad_axis2_def)

lemma wf_pad_axis2 [simp]: "wf_tensor (pad_axis2 mode p0 x)"
  by (simp add: pad_axis2_def)

subsection \<open>The frames of an operator that a constructor returned\<close>

definition frame_value ::
  "(nat \<Rightarrow> nat \<Rightarrow> nat option) \<Rightarrow> ('a layer \<Rightarrow> 'a tensor \<Rightarrow> error + 'a tensor) \<Rightarrow>
   'a::comm_semiring_0 ndconv \<Rightarrow> 'a tensor \<Rightarrow> nat list \<Rightarrow> 'a" where
  "frame_value tgt L op x idx =
     sum_list (map (\<lambda>ij. if tgt (fst ij) (snd ij) = Some (idx ! 2)
                         then elem (projr (L (self_conv_layers op ! fst ij) (slice2 x (snd ij))))
                                (take 2 idx @ drop 3 idx)
                         else 0)
                 (List.product [0..<length (self_conv_layers op)] [0..<shape x ! 2]))"

lemma built_child:
  assumes "built tr op" "i < length (self_conv_layers op)"
  shows "\<exists>p. self_conv_layers op ! i = Base p \<and> built_prim tr op p"
proof -
  from assms(2) have "self_conv_layers op ! i \<in> set (self_conv_layers op)" by simp
  moreover from assms(1) have
    "\<forall>l \<in> set (self_conv_layers op). \<exists>p. l = Base p \<and> built_prim tr op p"
    by (simp add: built_def)
  ultimately show ?thesis by blast
qed

lemma built_K:
  "built tr op \<Longrightarrow> nat (self_kernel_size op ! 0) = length (self_conv_layers op)"
  by (auto simp: built_def hd_conv_nth)

lemma child_shape:
  fixes op :: "'a::comm_semiring_0 ndconv"
  assumes bl: "built tr op" and i: "i < length (self_conv_layers op)"
    and p: "self_conv_layers op ! i = Base p"
    and sh: "shape ci = b # c # rest"
    and len: "length size_o = Suc (length rest)"
    and so: "\<And>a. a < length rest \<Longrightarrow>
               size_o ! Suc a =
                 (if tr then (int (rest ! a) - 1) * self_stride op ! Suc a
                              - 2 * self_padding op ! Suc a + self_kernel_size op ! Suc a
                  else (int (rest ! a) + 2 * self_padding op ! Suc a
                          - self_kernel_size op ! Suc a) div self_stride op ! Suc a + 1)"
    and ok: "conv_forward p ci = Inr fc"
  shows "shape fc = b # self_out_channels op # map nat (drop 1 size_o) \<and> wf_tensor fc"
proof -
  from built_child[OF bl i] p have bp: "built_prim tr op p" by auto
  then have
    tr: "class_transposed (p_class p) = tr"
    and cout: "p_out_channels p = self_out_channels op"
    and ks: "p_kernel_size p = drop 1 (self_kernel_size op)"
    and st: "p_stride p = drop 1 (self_stride op)"
    and pd: "p_padding p = drop 1 (self_padding op)"
    by (simp_all add: built_prim_def)
  from conv_forward_Inr[OF ok] have acc: "conv_accepts p ci" and wf: "wf_tensor fc"
    and shf: "shape fc = shape ci ! 0 # p_out_channels p # map nat (prim_sizes p (drop 2 (shape ci)))"
    by blast+
  from acc sh have n: "class_dims (p_class p) = length rest"
    and lk: "length (p_kernel_size p) = length rest"
    and ls: "length (p_stride p) = length rest"
    and lp: "length (p_padding p) = length rest"
    by (auto simp: conv_accepts_def)
  have "prim_sizes p rest = drop 1 size_o"
  proof (rule nth_equalityI)
    show "length (prim_sizes p rest) = length (drop 1 size_o)"
      by (simp add: prim_sizes_def n len)
  next
    fix a assume "a < length (prim_sizes p rest)"
    then have a: "a < length rest" by (simp add: prim_sizes_def n)
    have k: "p_kernel_size p ! a = self_kernel_size op ! Suc a"
      using lk a unfolding ks by (subst nth_drop) auto
    have s: "p_stride p ! a = self_stride op ! Suc a"
      using ls a unfolding st by (subst nth_drop) auto
    have q: "p_padding p ! a = self_padding op ! Suc a"
      using lp a unfolding pd by (subst nth_drop) auto
    have "drop 1 size_o ! a = size_o ! Suc a"
      using len by (subst nth_drop) auto
    then show "prim_sizes p rest ! a = drop 1 size_o ! a"
      using a by (simp add: prim_sizes_def n tr k s q so del: One_nat_def)
  qed
  with shf wf sh cout show ?thesis by simp
qed

lemma frames_loop_built:
  fixes op :: "'a::comm_semiring_0 ndconv"
  assumes bl: "built tr op" and wf: "wf_tensor x" and sh: "shape x = b # c # d # rest"
    and L: "\<And>p. L (Base p) = conv_forward p"
    and len: "length size_o = Suc (length rest)"
    and so: "\<And>a. a < length rest \<Longrightarrow>
               size_o ! Suc a =
                 (if tr then (int (rest ! a) - 1) * self_stride op ! Suc a
                              - 2 * self_padding op ! Suc a + self_kernel_size op ! Suc a
                  else (int (rest ! a) + 2 * self_padding op ! Suc a
                          - self_kernel_size op ! Suc a) div self_stride op ! Suc a + 1)"
    and tgt_range: "\<And>i j out. tgt i j = Some out \<Longrightarrow> int out < hd size_o"
    and ok: "frames_loop tgt op (map L (self_conv_layers op)) x b c (d # rest) size_o = Inr y"
  shows "(\<forall>v \<in> set size_o. 0 \<le> v) \<and> 1 \<le> hd size_o \<and>
         (self_use_bias op \<longrightarrow> 0 < b \<and> 0 < self_out_channels op) \<and>
         (\<forall>i < length (self_conv_layers op). \<forall>j < d. \<forall>out. tgt i j = Some out \<longrightarrow>
            0 < b \<and> 0 < c \<and>
            (\<exists>fc. L (self_conv_layers op ! i) (slice2 x j) = Inr fc \<and>
                 shape fc = b # self_out_channels op # map nat (drop 1 size_o))) \<and>
         y = tabulate (b # self_out_channels op # map nat size_o)
               (\<lambda>idx. frame_value tgt L op x idx + bias_value op (idx ! 1))"
proof -
  let ?ls = "self_conv_layers op"
  let ?K = "length ?ls"
  let ?cout = "self_out_channels op"
  have K: "?K = nat (self_kernel_size op ! 0)"
    using built_K[OF bl] by simp
  have n_i: "d = (d # rest) ! 0" by simp
  have H: "shape fc = b # ?cout # map nat (drop 1 size_o) \<and> wf_tensor fc"
    if cc: "child_call (map L ?ls) x b c (d # rest) i j = Inr fc" for i j fc
  proof -
    from child_call_index[OF cc] have i: "i < ?K" by simp
    from cc child_call_iff[OF wf sh i, of L j fc] have
      call: "L (?ls ! i) (slice2 x j) = Inr fc" by simp
    from built_child[OF bl i] obtain p where p: "?ls ! i = Base p" by blast
    from call p L have cf: "conv_forward p (slice2 x j) = Inr fc" by simp
    show ?thesis
      by (rule child_shape[OF bl i p shape_slice2[OF sh] len so cf])
  qed
  have bias: "\<exists>bt. self_bias op = Some bt \<and> shape bt = [?cout] \<and> wf_tensor bt"
    if "self_use_bias op"
    using bl that by (simp add: built_def)
  have range: "int out < hd size_o" if "i < ?K" "j < d" "tgt i j = Some out" for i j out
    using tgt_range[OF that(3)] .
  have ch: "size_o \<noteq> [] \<and> 1 \<le> hd size_o \<and> (\<forall>d \<in> set (drop 1 size_o). 0 \<le> d) \<and>
         (self_use_bias op \<longrightarrow> 0 < b \<and> 0 < ?cout) \<and>
         (\<forall>i < ?K. \<forall>j < d. \<forall>out. tgt i j = Some out \<longrightarrow>
            (\<exists>fc. child_call (map L ?ls) x b c (d # rest) i j = Inr fc)) \<and>
         y = tabulate (b # ?cout # nat (hd size_o) # map nat (drop 1 size_o))
               (\<lambda>idx. overlap_sum tgt (map L ?ls) x b c (d # rest) ?K d (idx ! 2)
                         (take 2 idx @ drop 3 idx) + bias_value op (idx ! 1))"
    by (rule frames_loop_char[where tgt=tgt, OF ok K n_i refl])
       (use range in blast, use H in blast, use bias in blast)
  then have ne: "size_o \<noteq> []" and so0: "1 \<le> hd size_o"
    and nonneg: "\<forall>d \<in> set (drop 1 size_o). 0 \<le> d"
    and pos: "self_use_bias op \<longrightarrow> 0 < b \<and> 0 < ?cout"
    and calls: "\<And>i j out. i < ?K \<Longrightarrow> j < d \<Longrightarrow> tgt i j = Some out \<Longrightarrow>
                  \<exists>fc. child_call (map L ?ls) x b c (d # rest) i j = Inr fc"
    and y: "y = tabulate (b # ?cout # nat (hd size_o) # map nat (drop 1 size_o))
               (\<lambda>idx. overlap_sum tgt (map L ?ls) x b c (d # rest) ?K d (idx ! 2)
                         (take 2 idx @ drop 3 idx) + bias_value op (idx ! 1))"
    by blast+
  from ne obtain s0 srest where so_eq: "size_o = s0 # srest" by (cases size_o) auto
  have all: "\<forall>v \<in> set size_o. 0 \<le> v"
    using so0 nonneg so_eq by auto
  have calls': "0 < b \<and> 0 < c \<and>
                (\<exists>fc. L (?ls ! i) (slice2 x j) = Inr fc \<and>
                     shape fc = b # ?cout # map nat (drop 1 size_o))"
    if "i < ?K" "j < d" "tgt i j = Some out" for i j out
  proof -
    from calls[OF that] obtain fc where
      cc: "child_call (map L ?ls) x b c (d # rest) i j = Inr fc"
      by blast
    from H[OF cc] have "shape fc = b # ?cout # map nat (drop 1 size_o)" by blast
    with cc child_call_iff[OF wf sh that(1), of L j fc] show ?thesis by blast
  qed
  have contrib: "contribution tgt (map L ?ls) x b c (d # rest) out idx ij =
                 (if tgt (fst ij) (snd ij) = Some out
                  then elem (projr (L (?ls ! fst ij) (slice2 x (snd ij)))) idx else 0)"
    if "ij \<in> set (List.product [0..<?K] [0..<d])" for out idx ij
  proof (cases "tgt (fst ij) (snd ij) = Some out")
    case False
    then show ?thesis by (simp add: contribution_def)
  next
    case True
    from that have ij: "fst ij < ?K" "snd ij < d" by auto
    from calls[OF ij True] obtain fc where
      cc: "child_call (map L ?ls) x b c (d # rest) (fst ij) (snd ij) = Inr fc" by blast
    with child_call_iff[OF wf sh ij(1), of L "snd ij" fc] have
      "L (?ls ! fst ij) (slice2 x (snd ij)) = Inr fc" by blast
    with cc True show ?thesis by (simp add: contribution_def)
  qed
  have fv: "overlap_sum tgt (map L ?ls) x b c (d # rest) ?K d (idx ! 2) (take 2 idx @ drop 3 idx) =
            frame_value tgt L op x idx" for idx
  proof -
    have d2: "shape x ! 2 = d" by (simp add: sh)
    show ?thesis
      unfolding overlap_sum_def frame_value_def d2
      by (rule arg_cong[where f=sum_list], rule map_cong[OF refl]) (use contrib in simp)
  qed
  have "y = tabulate (b # ?cout # map nat size_o)
               (\<lambda>idx. frame_value tgt L op x idx + bias_value op (idx ! 1))"
    unfolding y fv using so_eq by simp
  then have yy: "y = tabulate (b # ?cout # map nat size_o)
               (\<lambda>idx. frame_value tgt L op x idx + bias_value op (idx ! 1))" .
  have c: "\<forall>i < length (self_conv_layers op). \<forall>j < d. \<forall>out. tgt i j = Some out \<longrightarrow>
            0 < b \<and> 0 < c \<and>
            (\<exists>fc. L (self_conv_layers op ! i) (slice2 x j) = Inr fc \<and>
                 shape fc = b # self_out_channels op # map nat (drop 1 size_o))"
    using calls' by blast
  show ?thesis
    by (intro conjI) (rule all, rule so0, rule pos, rule c, rule yy)
qed

subsection \<open>The forward passes of a constructed operator\<close>

definition out_sizes :: "bool \<Rightarrow> 'a ndconv \<Rightarrow> nat list \<Rightarrow> int list" where
  "out_sizes tr op sh =
     map (\<lambda>k. if tr then (int (sh ! (k + 2)) - 1) * self_stride op ! k
                           - 2 * self_padding op ! k + self_kernel_size op ! k
               else (int (sh ! (k + 2)) + 2 * self_padding op ! k - self_kernel_size op ! k)
                      div self_stride op ! k + 1)
       [0..<length sh - 2]"

lemma tgt_transpose_range: "tgt_transpose k0 p0 s0 i j = Some out \<Longrightarrow> int out < s0"
  by (auto simp: tgt_transpose_def Let_def split: if_splits)

lemma tgt_conv_range: "tgt_conv k0 n_i ons0 s0 so0 i j = Some out \<Longrightarrow> int out < so0"
  by (auto simp: tgt_conv_def Let_def split: if_splits)

lemma ConvTransposeNd_forward_char:
  fixes op :: "'a::comm_semiring_0 ndconv"
  assumes bl: "built True op" and wf: "wf_tensor x"
    and ok: "ConvTransposeNd_forward rt op x = Inr y"
  defines "size_o \<equiv> out_sizes True op (shape x)"
  defines "tgt \<equiv> tgt_transpose (self_kernel_size op ! 0) (self_padding op ! 0) (hd size_o)"
  shows "3 \<le> length (shape x) \<and> length (shape x) - 2 \<le> length (self_kernel_size op) \<and>
         cuda_available rt \<and>
         (\<forall>v \<in> set size_o. 0 \<le> v) \<and> 1 \<le> hd size_o \<and>
         (self_use_bias op \<longrightarrow> 0 < shape x ! 0 \<and> 0 < self_out_channels op) \<and>
         (\<forall>i < length (self_conv_layers op). \<forall>j < shape x ! 2. \<forall>out. tgt i j = Some out \<longrightarrow>
            0 < shape x ! 0 \<and> 0 < shape x ! 1 \<and>
            (\<exists>fc. ConvTransposeNd_layer rt (self_conv_layers op ! i) (slice2 x j) = Inr fc \<and>
                 shape fc = shape x ! 0 # self_out_channels op # map nat (drop 1 size_o))) \<and>
         y = tabulate (shape x ! 0 # self_out_channels op # map nat size_o)
               (\<lambda>idx. frame_value tgt (ConvTransposeNd_layer rt) op x idx + bias_value op (idx ! 1))"
proof -
  let ?ls = "map (ConvTransposeNd_layer rt) (self_conv_layers op)"
  from ok have ap: "ConvTransposeNd_apply rt op ?ls x = Inr y"
    by (simp add: ConvTransposeNd_forward_eq)
  then obtain b c size_i so where sh0: "shape x = b # c # size_i"
    and ts: "transpose_sizes size_i (self_padding op) (self_kernel_size op) (self_stride op) = Inr so"
    and fl: "frames_loop (tgt_transpose (self_kernel_size op ! 0) (self_padding op ! 0) (hd so))
               op ?ls x b c size_i so = Inr y"
    and cu: "cuda_available rt"
    unfolding ConvTransposeNd_apply_eq
    by (auto split: list.splits sum.splits dest: cuda_frames_loop_Inr)
  from ts have lso: "length so = length size_i"
    and each: "\<And>a. a < length size_i \<Longrightarrow>
                 a < length (self_padding op) \<and> a < length (self_kernel_size op) \<and>
                 a < length (self_stride op) \<and>
                 so ! a = (int (size_i ! a) - 1) * self_stride op ! a
                            - 2 * self_padding op ! a + self_kernel_size op ! a"
    unfolding transpose_sizes_Inr by blast+
  have so: "so = size_o"
    unfolding size_o_def out_sizes_def
    by (rule nth_equalityI) (simp_all add: lso sh0 each)
  have ne: "size_i \<noteq> []"
  proof
    assume "size_i = []"
    with lso have "so = []" by simp
    with fl show False by (simp add: frames_loop_def py_index_def)
  qed
  then obtain d rest where si: "size_i = d # rest" by (cases size_i) auto
  have sh: "shape x = b # c # d # rest" using sh0 si by simp
  have lk: "length (shape x) - 2 \<le> length (self_kernel_size op)"
  proof -
    have "length size_i - 1 < length (self_kernel_size op)"
      using each[of "length size_i - 1"] ne by simp
    then show ?thesis using sh0 by simp
  qed
  have fb: "(\<forall>v \<in> set so. 0 \<le> v) \<and> 1 \<le> hd so \<and>
         (self_use_bias op \<longrightarrow> 0 < b \<and> 0 < self_out_channels op) \<and>
         (\<forall>i < length (self_conv_layers op). \<forall>j < d. \<forall>out.
            tgt_transpose (self_kernel_size op ! 0) (self_padding op ! 0) (hd so) i j = Some out \<longrightarrow>
            0 < b \<and> 0 < c \<and>
            (\<exists>fc. ConvTransposeNd_layer rt (self_conv_layers op ! i) (slice2 x j) = Inr fc \<and>
                 shape fc = b # self_out_channels op # map nat (drop 1 so))) \<and>
         y = tabulate (b # self_out_channels op # map nat so)
               (\<lambda>idx. frame_value (tgt_transpose (self_kernel_size op ! 0) (self_padding op ! 0) (hd so))
                        (ConvTransposeNd_layer rt) op x idx + bias_value op (idx ! 1))"
  proof (rule frames_loop_built[OF bl wf sh _ _ _ _ fl[unfolded si]])
    show "ConvTransposeNd_layer rt (Base p) = conv_forward p" for p by simp
    show "length so = Suc (length rest)" using lso si by simp
    show "so ! Suc a =
           (if True then (int (rest ! a) - 1) * self_stride op ! Suc a
                         - 2 * self_padding op ! Suc a + self_kernel_size op ! Suc a
            else (int (rest ! a) + 2 * self_padding op ! Suc a - self_kernel_size op ! Suc a)
                   div self_stride op ! Suc a + 1)" if "a < length rest" for a
      using each[of "Suc a"] that si by simp
    show "int out < hd so"
      if "tgt_transpose (self_kernel_size op ! 0) (self_padding op ! 0) (hd so) i j = Some out"
      for i j out
      using that by (rule tgt_transpose_range)
  qed
  show ?thesis
    using fb lk cu unfolding tgt_def so[symmetric] sh by simp
qed


definition padded_input :: "'a::zero ndconv \<Rightarrow> 'a tensor \<Rightarrow> 'a tensor" where
  "padded_input op x =
     (if self_rank op = 0
      then pad_axis2 (if self_padding_mode op = ''zeros'' then ''constant'' else ''reflect'')
             (hd (self_padding op)) x
      else x)"

lemma pad_leading_rank: "pad_leading self x = Inr r \<Longrightarrow> 3 \<le> length (shape x)"
  by (auto simp: pad_leading_def py_index_def split: sum.splits if_splits)

lemma shape_3: "3 \<le> length sh \<Longrightarrow> \<exists>b c d rest. sh = b # c # d # (rest :: nat list)"
  by (cases sh; cases "tl sh"; cases "tl (tl sh)") auto

lemma ConvNd_prologue:
  fixes op :: "'a::comm_semiring_0 ndconv"
  assumes wf: "wf_tensor x"
    and pr: "(if self_rank op = 0 then pad_leading op x else Inr (self_padding op, x)) = Inr padded"
    and sh': "shape (snd padded) = b # c # d' # rest"
  shows "snd padded = padded_input op x \<and> wf_tensor (snd padded) \<and>
         (\<exists>d. shape x = b # c # d # rest \<and>
              int d' + 2 * fst padded ! 0 = int d + 2 * self_padding op ! 0) \<and>
         (\<forall>a. fst padded ! Suc a = self_padding op ! Suc a) \<and>
         (self_rank op = 0 \<longrightarrow>
            self_padding op \<noteq> [] \<and> 0 < b \<and> 0 < c \<and>
            pad_ok (if self_padding_mode op = ''zeros'' then ''constant'' else ''reflect'')
              (shape x ! 2) (hd (self_padding op)) (hd (self_padding op)) \<and>
            pad_ok (if self_padding_mode op = ''zeros'' then ''constant'' else ''reflect'')
              (prod_list rest) 0 0)"
proof (cases "self_rank op = 0")
  case False
  with pr have "padded = (self_padding op, x)" by simp
  with False wf sh' show ?thesis by (simp add: padded_input_def)
next
  case True
  let ?mode = "if self_padding_mode op = ''zeros'' then ''constant'' else ''reflect''"
  let ?p0 = "hd (self_padding op)"
  from True pr have pl: "pad_leading op x = Inr padded" by simp
  from shape_3[OF pad_leading_rank[OF pl]] obtain b0 c0 d0 rest0 where
    sh: "shape x = b0 # c0 # d0 # rest0" by blast
  from pl pad_leading_iff[OF wf sh, of op padded] have
    ne: "self_padding op \<noteq> []" and pos: "0 < b0" "0 < c0" "0 < d0"
    and ok1: "pad_ok ?mode (prod_list rest0) 0 0" and ok2: "pad_ok ?mode d0 ?p0 ?p0"
    and r: "padded = ((self_padding op)[0 := 0], pad_axis2 ?mode ?p0 x)"
    by blast+
  from r sh' pad_axis2_shape[OF sh, of ?mode ?p0] have
    eqs: "b0 = b" "c0 = c" "rest0 = rest" "d' = nat (int d0 + 2 * ?p0)"
    by simp_all
  have nn: "0 \<le> int d0 + 2 * ?p0" using ok2 by (simp add: pad_ok_def)
  have p0: "self_padding op ! 0 = ?p0" using ne by (simp add: hd_conv_nth)
  have f0: "fst padded ! 0 = 0" using r ne by simp
  have "\<exists>d. shape x = b # c # d # rest \<and>
              int d' + 2 * fst padded ! 0 = int d + 2 * self_padding op ! 0"
    using sh eqs nn p0 f0 by simp
  moreover have "\<forall>a. fst padded ! Suc a = self_padding op ! Suc a"
    using r by simp
  moreover have "snd padded = padded_input op x"
    using r True by (simp add: padded_input_def)
  moreover have "wf_tensor (snd padded)" using r by simp
  moreover have "self_padding op \<noteq> [] \<and> 0 < b \<and> 0 < c \<and>
            pad_ok ?mode (shape x ! 2) ?p0 ?p0 \<and> pad_ok ?mode (prod_list rest) 0 0"
    using ne pos ok1 ok2 eqs sh by simp
  ultimately show ?thesis by blast
qed

lemma ConvNd_forward_char:
  fixes op :: "'a::comm_semiring_0 ndconv"
  assumes bl: "built False op" and wf: "wf_tensor x"
    and ok: "ConvNd_forward op x = Inr y"
  defines "size_o \<equiv> out_sizes False op (shape x)"
  defines "x' \<equiv> padded_input op x"
  defines "tgt \<equiv> tgt_conv (self_kernel_size op ! 0) (shape x' ! 2)
                   (int (shape x' ! 2) - self_kernel_size op ! 0 + 1)
                   (self_stride op ! 0) (hd size_o)"
  shows "3 \<le> length (shape x) \<and> length (shape x) - 2 \<le> length (self_kernel_size op) \<and>
         (\<forall>k < length (shape x) - 2. self_stride op ! k \<noteq> 0) \<and>
         (\<forall>v \<in> set size_o. 0 \<le> v) \<and> 1 \<le> hd size_o \<and>
         (self_use_bias op \<longrightarrow> 0 < shape x ! 0 \<and> 0 < self_out_channels op) \<and>
         (\<forall>i < length (self_conv_layers op). \<forall>j < shape x' ! 2. \<forall>out. tgt i j = Some out \<longrightarrow>
            0 < shape x ! 0 \<and> 0 < shape x ! 1 \<and>
            (\<exists>fc. ConvNd_layer (self_conv_layers op ! i) (slice2 x' j) = Inr fc \<and>
                 shape fc = shape x ! 0 # self_out_channels op # map nat (drop 1 size_o))) \<and>
         y = tabulate (shape x ! 0 # self_out_channels op # map nat size_o)
               (\<lambda>idx. frame_value tgt ConvNd_layer op x' idx + bias_value op (idx ! 1))"
proof -
  let ?ls = "map ConvNd_layer (self_conv_layers op)"
  let ?ks = "self_kernel_size op" and ?st = "self_stride op" and ?pd = "self_padding op"
  from ok have ap: "ConvNd_apply op ?ls x = Inr y"
    by (simp add: ConvNd_forward_eq)
  then obtain padded b c size_i so where
    pr: "(if self_rank op = 0 then pad_leading op x else Inr (?pd, x)) = Inr padded"
    and sh0: "shape (snd padded) = b # c # size_i"
    and cs: "conv_sizes size_i (fst padded) ?ks ?st = Inr so"
    and fl: "frames_loop
               (tgt_conv (?ks ! 0) (size_i ! 0)
                  (map (\<lambda>x. int (size_i ! x) - ?ks ! x + 1) [0..<length size_i] ! 0)
                  (?st ! 0) (hd so))
               op ?ls (snd padded) b c size_i so = Inr y"
    unfolding ConvNd_apply_eq
    by (auto split: list.splits sum.splits)
  from cs have lso: "length so = length size_i"
    and each: "\<And>a. a < length size_i \<Longrightarrow>
                 a < length (fst padded) \<and> a < length ?ks \<and> a < length ?st \<and> ?st ! a \<noteq> 0 \<and>
                 so ! a = (int (size_i ! a) + 2 * fst padded ! a - ?ks ! a) div ?st ! a + 1"
    unfolding conv_sizes_Inr by blast+
  have ne: "size_i \<noteq> []"
  proof
    assume "size_i = []"
    with lso have "so = []" by simp
    with fl show False by (simp add: frames_loop_def py_index_def)
  qed
  then obtain d' rest where si: "size_i = d' # rest" by (cases size_i) auto
  have sh': "shape (snd padded) = b # c # d' # rest" using sh0 si by simp
  from ConvNd_prologue[OF wf pr sh'] obtain d where
    xp: "snd padded = x'" and wfp: "wf_tensor (snd padded)"
    and sh: "shape x = b # c # d # rest"
    and d0: "int d' + 2 * fst padded ! 0 = int d + 2 * ?pd ! 0"
    and pds: "\<And>a. fst padded ! Suc a = ?pd ! Suc a"
    unfolding x'_def by blast
  have so: "so = size_o"
  proof (rule nth_equalityI)
    show "length so = length size_o"
      by (simp add: size_o_def out_sizes_def lso si sh)
  next
    fix a assume "a < length so"
    then have a: "a < length size_i" by (simp add: lso)
    then have a2: "a < length (shape x) - 2" using sh si by simp
    have rhs: "size_o ! a = (int (shape x ! (a + 2)) + 2 * ?pd ! a - ?ks ! a) div ?st ! a + 1"
      unfolding size_o_def out_sizes_def using a2 by (simp del: upt_Suc)
    show "so ! a = size_o ! a"
    proof (cases a)
      case 0
      have "int (size_i ! 0) + 2 * fst padded ! 0 - ?ks ! 0 = int d + 2 * ?pd ! 0 - ?ks ! 0"
        using d0 si by simp
      with each[OF a] 0 rhs show ?thesis by (simp add: sh)
    next
      case (Suc a')
      with each[OF a] pds[of a'] rhs show ?thesis by (simp add: si sh)
    qed
  qed
  have lk: "length (shape x) - 2 \<le> length ?ks"
  proof -
    have "length size_i - 1 < length ?ks"
      using each[of "length size_i - 1"] ne by simp
    then show ?thesis using sh si by simp
  qed
  have st0: "\<forall>k < length (shape x) - 2. ?st ! k \<noteq> 0"
    using each sh si by simp
  have ons: "map (\<lambda>x. int (size_i ! x) - ?ks ! x + 1) [0..<length size_i] ! 0 =
             int d' - ?ks ! 0 + 1"
    by (simp add: si upt_rec)
  note fl' = fl[unfolded ons, unfolded si]
  have fb: "(\<forall>v \<in> set so. 0 \<le> v) \<and> 1 \<le> hd so \<and>
         (self_use_bias op \<longrightarrow> 0 < b \<and> 0 < self_out_channels op) \<and>
         (\<forall>i < length (self_conv_layers op). \<forall>j < d'. \<forall>out.
            tgt_conv (?ks ! 0) ((d' # rest) ! 0) (int d' - ?ks ! 0 + 1) (?st ! 0) (hd so) i j = Some out \<longrightarrow>
            0 < b \<and> 0 < c \<and>
            (\<exists>fc. ConvNd_layer (self_conv_layers op ! i) (slice2 (snd padded) j) = Inr fc \<and>
                 shape fc = b # self_out_channels op # map nat (drop 1 so))) \<and>
         y = tabulate (b # self_out_channels op # map nat so)
               (\<lambda>idx. frame_value (tgt_conv (?ks ! 0) ((d' # rest) ! 0) (int d' - ?ks ! 0 + 1) (?st ! 0) (hd so))
                        ConvNd_layer op (snd padded) idx + bias_value op (idx ! 1))"
  proof (rule frames_loop_built[OF bl wfp sh' _ _ _ _ fl'])
    show "ConvNd_layer (Base p) = conv_forward p" for p by simp
    show "length so = Suc (length rest)" using lso si by simp
    show "so ! Suc a =
           (if False then (int (rest ! a) - 1) * ?st ! Suc a - 2 * ?pd ! Suc a + ?ks ! Suc a
            else (int (rest ! a) + 2 * ?pd ! Suc a - ?ks ! Suc a) div ?st ! Suc a + 1)"
      if "a < length rest" for a
      using each[of "Suc a"] that si pds[of a] by simp
    show "int out < hd so"
      if "tgt_conv (?ks ! 0) ((d' # rest) ! 0) (int d' - ?ks ! 0 + 1) (?st ! 0) (hd so) i j = Some out"
      for i j out
      using that by (rule tgt_conv_range)
  qed
  have sx': "shape (snd padded) ! 2 = d'" using sh' by simp
  show ?thesis
    using fb lk st0 unfolding tgt_def so[symmetric] xp[symmetric] sx' sh by simp
qed

subsection \<open>When the forward passes return\<close>

lemma table_dims:
  "py_index (conv_table tr) (nd - 2) = Inr c \<Longrightarrow> 2 \<le> nd \<Longrightarrow> nd \<le> 4 \<Longrightarrow>
   class_dims c = nat (nd - 1)"
proof -
  assume a: "py_index (conv_table tr) (nd - 2) = Inr c" "2 \<le> nd" "nd \<le> 4"
  then consider "nd = 2" | "nd = 3" | "nd = 4" by linarith
  then show ?thesis
    using a(1) by cases (auto simp: py_index_def conv_table_def split: if_splits)
qed

lemma prod_list_pos: "\<forall>d \<in> set ds. 0 < d \<Longrightarrow> 0 < prod_list (ds :: nat list)"
  by (induction ds) auto

lemma built_lengths:
  assumes "built tr op"
  shows "int (length (self_kernel_size op)) = self_num_dims op"
        "int (length (self_stride op)) = self_num_dims op"
        "int (length (self_padding op)) = self_num_dims op"
  using assms by (simp_all add: built_def)

lemma child_accepts:
  fixes op :: "'a::comm_semiring_0 ndconv"
  assumes bl: "built tr op" and nd: "2 \<le> self_num_dims op" "self_num_dims op \<le> 4"
    and bp: "built_prim tr op p"
    and sh: "shape ci = b # c # rest" and lr: "int (length rest) = self_num_dims op - 1"
    and cin: "c = self_in_channels op"
    and ks: "\<forall>k \<in> set (self_kernel_size op). 1 \<le> k"
    and st: "\<forall>s \<in> set (self_stride op). 1 \<le> s"
    and pd: "\<forall>q \<in> set (self_padding op). 0 \<le> q"
    and tra: "tr \<Longrightarrow> \<forall>a < length rest.
                 1 \<le> (int (rest ! a) - 1) * self_stride op ! Suc a
                        - 2 * self_padding op ! Suc a + self_kernel_size op ! Suc a"
    and fwd: "\<not> tr \<Longrightarrow> \<forall>a < length rest.
                 pad_ok (self_padding_mode op) (rest ! a)
                   (self_padding op ! Suc a) (self_padding op ! Suc a) \<and>
                 self_kernel_size op ! Suc a \<le> int (rest ! a) + 2 * self_padding op ! Suc a"
  shows "conv_accepts p ci"
proof -
  note L = built_lengths[OF bl]
  from bp have cls: "py_index (conv_table tr) (self_num_dims op - 2) = Inr (p_class p)"
    and tr: "class_transposed (p_class p) = tr"
    and pin: "p_in_channels p = self_in_channels op"
    and pks: "p_kernel_size p = drop 1 (self_kernel_size op)"
    and pst: "p_stride p = drop 1 (self_stride op)"
    and ppd: "p_padding p = drop 1 (self_padding op)"
    and ppm: "p_padding_mode p = self_padding_mode op"
    and pb: "p_bias p = None"
    and w: "shape (p_weight p) = weight_shape p" "wf_tensor (p_weight p)"
    and g: "0 < p_groups p"
    and z: "tr \<longrightarrow> p_padding_mode p = ''zeros''"
    unfolding built_prim_def by blast+
  have n: "class_dims (p_class p) = length rest"
    using table_dims[OF cls nd] lr by simp
  have lk: "length (p_kernel_size p) = length rest"
    and ls: "length (p_stride p) = length rest"
    and lp: "length (p_padding p) = length rest"
    using L lr by (simp_all add: pks pst ppd)
  have nk: "p_kernel_size p ! a = self_kernel_size op ! Suc a" if "a < length rest" for a
    using lk that unfolding pks by (subst nth_drop) auto
  have ns: "p_stride p ! a = self_stride op ! Suc a" if "a < length rest" for a
    using ls that unfolding pst by (subst nth_drop) auto
  have np: "p_padding p ! a = self_padding op ! Suc a" if "a < length rest" for a
    using lp that unfolding ppd by (subst nth_drop) auto
  have c1: "length (shape ci) = class_dims (p_class p) + 2" by (simp add: sh n)
  have c2: "shape ci ! 1 = p_in_channels p" by (simp add: sh cin pin)
  have c3: "\<forall>bt. p_bias p = Some bt \<longrightarrow> shape bt = [p_out_channels p] \<and> wf_tensor bt"
    by (simp add: pb)
  have c4: "\<forall>s \<in> set (p_stride p). 0 < s"
    using st unfolding pst by (auto dest!: in_set_dropD)
  have c5: "\<forall>q \<in> set (p_padding p). 0 \<le> q"
    using pd unfolding ppd by (auto dest!: in_set_dropD)
  have c6: "\<forall>k \<in> set (p_kernel_size p). 0 < k"
    using ks unfolding pks by (auto dest!: in_set_dropD)
  have c7: "if class_transposed (p_class p)
      then p_padding_mode p = ''zeros'' \<and> (\<forall>d \<in> set (prim_sizes p (drop 2 (shape ci))). 0 < d)
      else (\<forall>a < class_dims (p_class p).
              pad_ok (p_padding_mode p) (drop 2 (shape ci) ! a) (p_padding p ! a) (p_padding p ! a) \<and>
              p_kernel_size p ! a \<le> int (drop 2 (shape ci) ! a) + 2 * p_padding p ! a)"
  proof (cases tr)
    case True
    have "0 < v" if "v \<in> set (prim_sizes p rest)" for v
    proof -
      from that obtain a where a: "a < length rest"
        and v: "v = (int (rest ! a) - 1) * p_stride p ! a - 2 * p_padding p ! a + p_kernel_size p ! a"
        unfolding prim_sizes_def n using True tr by auto
      from tra[OF True] a have
        "1 \<le> (int (rest ! a) - 1) * self_stride op ! Suc a
               - 2 * self_padding op ! Suc a + self_kernel_size op ! Suc a" by blast
      with a v show ?thesis by (simp add: nk ns np)
    qed
    with True tr z show ?thesis by (simp add: sh)
  next
    case False
    with fwd tr show ?thesis
      by (simp add: sh n nk ns np ppm)
  qed
  show ?thesis
    unfolding conv_accepts_def
    using c1 lk ls lp c2 g w c3 c4 c5 c6 c7 n by simp
qed


lemma frames_loop_built_succ:
  fixes op :: "'a::comm_semiring_0 ndconv"
  assumes bl: "built tr op" and nd: "2 \<le> self_num_dims op" "self_num_dims op \<le> 4"
    and wf: "wf_tensor x" and sh: "shape x = b # c # d # rest"
    and lr: "int (length rest) = self_num_dims op - 1"
    and pos: "0 < b" "0 < c" and cin: "c = self_in_channels op"
    and cout: "0 < self_out_channels op"
    and L: "\<And>p. L (Base p) = conv_forward p"
    and ks: "\<forall>k \<in> set (self_kernel_size op). 1 \<le> k"
    and st: "\<forall>s \<in> set (self_stride op). 1 \<le> s"
    and pd: "\<forall>q \<in> set (self_padding op). 0 \<le> q"
    and len: "length size_o = Suc (length rest)"
    and so: "\<And>a. a < length rest \<Longrightarrow>
               size_o ! Suc a =
                 (if tr then (int (rest ! a) - 1) * self_stride op ! Suc a
                              - 2 * self_padding op ! Suc a + self_kernel_size op ! Suc a
                  else (int (rest ! a) + 2 * self_padding op ! Suc a
                          - self_kernel_size op ! Suc a) div self_stride op ! Suc a + 1)"
    and so0: "1 \<le> hd size_o"
    and tra: "tr \<Longrightarrow> \<forall>a < length rest.
                 1 \<le> (int (rest ! a) - 1) * self_stride op ! Suc a
                        - 2 * self_padding op ! Suc a + self_kernel_size op ! Suc a"
    and fwd: "\<not> tr \<Longrightarrow> \<forall>a < length rest.
                 pad_ok (self_padding_mode op) (rest ! a)
                   (self_padding op ! Suc a) (self_padding op ! Suc a) \<and>
                 self_kernel_size op ! Suc a \<le> int (rest ! a) + 2 * self_padding op ! Suc a"
    and tgt_range: "\<And>i j out. tgt i j = Some out \<Longrightarrow> int out < hd size_o"
  shows "\<exists>y. frames_loop tgt op (map L (self_conv_layers op)) x b c (d # rest) size_o = Inr y"
proof -
  let ?ls = "self_conv_layers op"
  note Ls = built_lengths[OF bl]
  from len obtain s0 srest where so_eq: "size_o = s0 # srest" by (cases size_o) auto
  with so0 have s0: "1 \<le> s0" by simp
  have lsr: "length srest = length rest" using len so_eq by simp
  have nn: "\<forall>v \<in> set srest. 0 \<le> v"
  proof
    fix v assume "v \<in> set srest"
    then obtain a where a: "a < length rest" and v: "v = size_o ! Suc a"
      using lsr so_eq by (auto simp: in_set_conv_nth)
    show "0 \<le> v"
    proof (cases tr)
      case True
      from tra[OF True] a have
        "1 \<le> (int (rest ! a) - 1) * self_stride op ! Suc a
               - 2 * self_padding op ! Suc a + self_kernel_size op ! Suc a" by blast
      with so[OF a] True v show ?thesis by simp
    next
      case False
      from fwd[OF False] a have
        f: "self_kernel_size op ! Suc a \<le> int (rest ! a) + 2 * self_padding op ! Suc a" by blast
      have "Suc a < length (self_stride op)" using a lr Ls by linarith
      then have "self_stride op ! Suc a \<in> set (self_stride op)" by simp
      with st have "1 \<le> self_stride op ! Suc a" by blast
      with f have "0 \<le> (int (rest ! a) + 2 * self_padding op ! Suc a
                          - self_kernel_size op ! Suc a) div self_stride op ! Suc a"
        by (simp add: pos_imp_zdiv_nonneg_iff)
      with so[OF a] False v show ?thesis by simp
    qed
  qed
  have K: "length ?ls = nat (self_kernel_size op ! 0)"
    using built_K[OF bl] by simp
  have n_i: "d = (d # rest) ! 0" by simp
  have range: "out < nat s0" if "tgt i j = Some out" for i j out
    using tgt_range[OF that] so_eq by simp
  have calls: "\<exists>fc. child_call (map L ?ls) x b c (d # rest) i j = Inr fc \<and>
                 shape fc = b # self_out_channels op # map nat srest \<and> wf_tensor fc"
    if i: "i < length ?ls" and j: "j < d" for i j
  proof -
    from built_child[OF bl i] obtain p where p: "?ls ! i = Base p" and bp: "built_prim tr op p"
      by blast
    let ?ci = "slice2 x j"
    have shc: "shape ?ci = b # c # rest" by (rule shape_slice2[OF sh])
    have acc: "conv_accepts p ?ci"
      by (rule child_accepts[OF bl nd bp shc lr cin ks st pd tra fwd])
    then obtain fc where cf: "conv_forward p ?ci = Inr fc"
      by (simp add: conv_forward_cases)
    from child_shape[OF bl i p shc len so cf] so_eq have
      shf: "shape fc = b # self_out_channels op # map nat srest" and wff: "wf_tensor fc"
      by simp_all
    from j have "0 < d" by simp
    with child_call_iff[OF wf sh i, of L j fc] pos j cf p L have
      "child_call (map L ?ls) x b c (d # rest) i j = Inr fc" by simp
    with shf wff show ?thesis by blast
  qed
  have bias: "0 < b \<and> 0 < self_out_channels op \<and>
              (\<exists>bt. self_bias op = Some bt \<and> shape bt = [self_out_channels op] \<and> wf_tensor bt)"
    if "self_use_bias op"
    using bl that pos cout by (simp add: built_def)
  have "frames_loop tgt op (map L ?ls) x b c (d # rest) size_o =
           Inr (tabulate (b # self_out_channels op # nat s0 # map nat srest)
                  (\<lambda>idx. overlap_sum tgt (map L ?ls) x b c (d # rest) (length ?ls) d (idx ! 2)
                            (take 2 idx @ drop 3 idx) + bias_value op (idx ! 1)))"
    by (rule frames_loop_succ[where tgt=tgt, OF so_eq s0 nn K n_i refl])
       (use range in blast, use calls in blast, use bias in blast)
  then show ?thesis by blast
qed

lemma shape_4:
  "4 \<le> length sh \<Longrightarrow> \<exists>b c d rest. sh = b # c # d # (rest :: nat list) \<and> rest \<noteq> []"
  by (cases sh; cases "tl sh"; cases "tl (tl sh)"; cases "tl (tl (tl sh))") auto

lemma out_sizes_nth:
  "k < length sh - 2 \<Longrightarrow>
   out_sizes tr op sh ! k =
     (if tr then (int (sh ! (k + 2)) - 1) * self_stride op ! k
                   - 2 * self_padding op ! k + self_kernel_size op ! k
      else (int (sh ! (k + 2)) + 2 * self_padding op ! k - self_kernel_size op ! k)
             div self_stride op ! k + 1)"
  unfolding out_sizes_def by (simp del: upt_Suc)

lemma length_out_sizes: "length (out_sizes tr op sh) = length sh - 2"
  by (simp add: out_sizes_def)

lemma ConvTransposeNd_forward_succ:
  fixes op :: "'a::comm_semiring_0 ndconv"
  assumes bl: "built True op" and nd: "2 \<le> self_num_dims op" "self_num_dims op \<le> 4"
    and ks: "\<forall>k \<in> set (self_kernel_size op). 1 \<le> k"
    and st: "\<forall>s \<in> set (self_stride op). 1 \<le> s"
    and pd: "\<forall>q \<in> set (self_padding op). 0 \<le> q"
    and cout: "0 < self_out_channels op"
    and wf: "wf_tensor x" and rk: "int (length (shape x)) = self_num_dims op + 2"
    and pos: "\<forall>d \<in> set (shape x). 0 < d" and cin: "shape x ! 1 = self_in_channels op"
    and sizes: "\<forall>k < length (shape x) - 2.
                  1 \<le> (int (shape x ! (k + 2)) - 1) * self_stride op ! k
                         - 2 * self_padding op ! k + self_kernel_size op ! k"
    and cu: "cuda_available rt" and dev: "input_device rt = CUDA"
  shows "\<exists>y. ConvTransposeNd_forward rt op x = Inr y"
proof -
  let ?so = "out_sizes True op (shape x)"
  note Ls = built_lengths[OF bl]
  from rk nd have "4 \<le> length (shape x)" by linarith
  from shape_4[OF this] obtain b c d rest where sh: "shape x = b # c # d # rest" by blast
  have lr: "int (length rest) = self_num_dims op - 1" using rk sh by simp
  have p: "0 < b" "0 < c" using pos sh by simp_all
  have lso: "length ?so = Suc (length rest)" by (simp add: length_out_sizes sh)
  have nth: "?so ! k = (int ((d # rest) ! k) - 1) * self_stride op ! k
                         - 2 * self_padding op ! k + self_kernel_size op ! k"
    if "k < Suc (length rest)" for k
    using out_sizes_nth[of k "shape x" True op] that by (simp add: sh)
  have ts: "transpose_sizes (d # rest) (self_padding op) (self_kernel_size op) (self_stride op)
              = Inr ?so"
    unfolding transpose_sizes_Inr
  proof (intro conjI allI impI)
    show "length ?so = length (d # rest)" using lso by simp
  next
    fix k assume k: "k < length (d # rest)"
    with lr Ls show "k < length (self_padding op)" "k < length (self_kernel_size op)"
      "k < length (self_stride op)" by simp_all
    from k show "?so ! k = (int ((d # rest) ! k) - 1) * self_stride op ! k
                         - 2 * self_padding op ! k + self_kernel_size op ! k"
      by (simp add: nth)
  qed
  have hd0: "hd ?so = ?so ! 0" using lso by (cases ?so) simp_all
  have so0: "1 \<le> hd ?so"
    using sizes[rule_format, of 0] nth[of 0] hd0 by (simp add: sh)
  have tra: "\<forall>a < length rest.
                 1 \<le> (int (rest ! a) - 1) * self_stride op ! Suc a
                        - 2 * self_padding op ! Suc a + self_kernel_size op ! Suc a"
  proof (intro allI impI)
    fix a assume "a < length rest"
    then have "Suc a < length (shape x) - 2" by (simp add: sh)
    from sizes[rule_format, OF this] show
      "1 \<le> (int (rest ! a) - 1) * self_stride op ! Suc a
              - 2 * self_padding op ! Suc a + self_kernel_size op ! Suc a"
      by (simp add: sh)
  qed
  have "\<exists>y. frames_loop (tgt_transpose (self_kernel_size op ! 0) (self_padding op ! 0) (hd ?so))
               op (map (ConvTransposeNd_layer rt) (self_conv_layers op)) x b c (d # rest) ?so = Inr y"
  proof (rule frames_loop_built_succ[OF bl nd wf sh lr p _ cout _ ks st pd lso _ so0])
    show "c = self_in_channels op" using cin sh by simp
    show "ConvTransposeNd_layer rt (Base p) = conv_forward p" for p by simp
    show "?so ! Suc a =
           (if True then (int (rest ! a) - 1) * self_stride op ! Suc a
                         - 2 * self_padding op ! Suc a + self_kernel_size op ! Suc a
            else (int (rest ! a) + 2 * self_padding op ! Suc a - self_kernel_size op ! Suc a)
                   div self_stride op ! Suc a + 1)" if "a < length rest" for a
      using nth[of "Suc a"] that by simp
    show "\<forall>a < length rest.
                 1 \<le> (int (rest ! a) - 1) * self_stride op ! Suc a
                        - 2 * self_padding op ! Suc a + self_kernel_size op ! Suc a"
      by (rule tra)
    show "\<forall>a < length rest.
                 pad_ok (self_padding_mode op) (rest ! a)
                   (self_padding op ! Suc a) (self_padding op ! Suc a) \<and>
                 self_kernel_size op ! Suc a \<le> int (rest ! a) + 2 * self_padding op ! Suc a"
      if "\<not> True" using that by simp
    show "int out < hd ?so"
      if "tgt_transpose (self_kernel_size op ! 0) (self_padding op ! 0) (hd ?so) i j = Some out"
      for i j out
      using that by (rule tgt_transpose_range)
  qed
  then obtain y where
    "frames_loop (tgt_transpose (self_kernel_size op ! 0) (self_padding op ! 0) (hd ?so))
               op (map (ConvTransposeNd_layer rt) (self_conv_layers op)) x b c (d # rest) ?so = Inr y"
    by blast
  then have "ConvTransposeNd_forward rt op x = Inr y"
    by (simp add: ConvTransposeNd_forward_eq ConvTransposeNd_apply_eq sh ts
          cuda_frames_loop_on_cuda[OF cu dev])
  then show ?thesis by blast
qed


lemma pad_ok_nonneg:
  "0 \<le> q \<Longrightarrow> 0 < d \<Longrightarrow> (mode \<noteq> ''zeros'' \<Longrightarrow> mode \<noteq> ''constant'' \<Longrightarrow> q < int d) \<Longrightarrow>
   pad_ok mode d q q"
  by (auto simp: pad_ok_def)

lemma ConvNd_forward_succ:
  fixes op :: "'a::comm_semiring_0 ndconv"
  assumes bl: "built False op" and nd: "2 \<le> self_num_dims op" "self_num_dims op \<le> 4"
    and ks: "\<forall>k \<in> set (self_kernel_size op). 1 \<le> k"
    and st: "\<forall>s \<in> set (self_stride op). 1 \<le> s"
    and pd: "\<forall>q \<in> set (self_padding op). 0 \<le> q"
    and cout: "0 < self_out_channels op"
    and wf: "wf_tensor x" and rk: "int (length (shape x)) = self_num_dims op + 2"
    and pos: "\<forall>d \<in> set (shape x). 0 < d" and cin: "shape x ! 1 = self_in_channels op"
    and fit: "\<forall>k < length (shape x) - 2.
                self_kernel_size op ! k \<le> int (shape x ! (k + 2)) + 2 * self_padding op ! k"
    and refl: "self_padding_mode op \<noteq> ''zeros'' \<Longrightarrow>
                 \<forall>k < length (shape x) - 2. self_padding op ! k < int (shape x ! (k + 2))"
  shows "\<exists>y. ConvNd_forward op x = Inr y"
proof -
  let ?so = "out_sizes False op (shape x)"
  let ?ks = "self_kernel_size op" and ?st = "self_stride op" and ?pd = "self_padding op"
  let ?mode = "if self_padding_mode op = ''zeros'' then ''constant'' else ''reflect''"
  let ?p0 = "hd ?pd"
  note Ls = built_lengths[OF bl]
  from rk nd have "4 \<le> length (shape x)" by linarith
  from shape_4[OF this] obtain b c d rest where sh: "shape x = b # c # d # rest" by blast
  have lr: "int (length rest) = self_num_dims op - 1" using rk sh by simp
  have p: "0 < b" "0 < c" "0 < d" and prest: "\<forall>v \<in> set rest. 0 < v" using pos sh by simp_all
  have ne: "?pd \<noteq> []" using Ls nd by auto
  have p0: "?pd ! 0 = ?p0" using ne by (simp add: hd_conv_nth)
  have p0nn: "0 \<le> ?p0" using pd ne by simp
  have inb: "k < length ?ks \<and> k < length ?st \<and> k < length ?pd" if "k < Suc (length rest)" for k
    using that lr Ls by linarith
  have stpos: "1 \<le> ?st ! k" if "k < Suc (length rest)" for k
    using st inb[OF that] by simp
  have pdnn: "0 \<le> ?pd ! k" if "k < Suc (length rest)" for k
    using pd inb[OF that] by simp
  have lso: "length ?so = Suc (length rest)" by (simp add: length_out_sizes sh)
  have nth: "?so ! k = (int ((d # rest) ! k) + 2 * ?pd ! k - ?ks ! k) div ?st ! k + 1"
    if "k < Suc (length rest)" for k
    using out_sizes_nth[of k "shape x" False op] that by (simp add: sh)
  have fit': "?ks ! k \<le> int ((d # rest) ! k) + 2 * ?pd ! k" if "k < Suc (length rest)" for k
    using fit[rule_format, of k] that by (simp add: sh)
  have refl': "?pd ! k < int ((d # rest) ! k)"
    if "self_padding_mode op \<noteq> ''zeros''" "k < Suc (length rest)" for k
    using refl[OF that(1), rule_format, of k] that(2) by (simp add: sh)
  define x' where "x' = padded_input op x"
  define pd' where "pd' = (if self_rank op = 0 then ?pd[0 := 0] else ?pd)"
  define d' where "d' = (if self_rank op = 0 then nat (int d + 2 * ?p0) else d)"
  have pro: "(if self_rank op = 0 then pad_leading op x else Inr (?pd, x)) = Inr (pd', x')"
  proof (cases "self_rank op = 0")
    case False
    then show ?thesis by (simp add: pd'_def x'_def padded_input_def)
  next
    case True
    have ok2: "pad_ok ?mode d ?p0 ?p0"
    proof (rule pad_ok_nonneg[OF p0nn p(3)])
      assume "?mode \<noteq> ''zeros''" "?mode \<noteq> ''constant''"
      then have "self_padding_mode op \<noteq> ''zeros''" by (auto split: if_splits)
      from refl'[OF this, of 0] p0 show "?p0 < int d" by simp
    qed
    have ok1: "pad_ok ?mode (prod_list rest) 0 0"
      using prod_list_pos[OF prest] by (auto simp: pad_ok_def)
    from pad_leading_iff[OF wf sh, of op "(?pd[0 := 0], pad_axis2 ?mode ?p0 x)"] ne p ok1 ok2
    have "pad_leading op x = Inr (?pd[0 := 0], pad_axis2 ?mode ?p0 x)" by simp
    with True show ?thesis by (simp add: pd'_def x'_def padded_input_def)
  qed
  have sh': "shape x' = b # c # d' # rest"
    unfolding x'_def d'_def padded_input_def
    using pad_axis2_shape[OF sh] sh by simp
  have wf': "wf_tensor x'"
    unfolding x'_def padded_input_def using wf by simp
  have d0: "int d' + 2 * pd' ! 0 = int d + 2 * ?pd ! 0"
    unfolding d'_def pd'_def using p0 p0nn ne by simp
  have pds: "pd' ! Suc a = ?pd ! Suc a" for a
    unfolding pd'_def by simp
  have lpd: "length pd' = length ?pd" unfolding pd'_def by simp
  have cs: "conv_sizes (d' # rest) pd' ?ks ?st = Inr ?so"
    unfolding conv_sizes_Inr
  proof (intro conjI allI impI)
    show "length ?so = length (d' # rest)" using lso by simp
  next
    fix k assume k: "k < length (d' # rest)"
    then have k': "k < Suc (length rest)" by simp
    from inb[OF k'] lpd show "k < length pd'" "k < length ?ks" "k < length ?st" by simp_all
    from stpos[OF k'] show "?st ! k \<noteq> 0" by simp
    show "?so ! k = (int ((d' # rest) ! k) + 2 * pd' ! k - ?ks ! k) div ?st ! k + 1"
    proof (cases k)
      case 0
      have "int d' + 2 * pd' ! 0 - ?ks ! 0 = int d + 2 * ?pd ! 0 - ?ks ! 0" using d0 by simp
      with nth[OF k'] 0 show ?thesis by simp
    next
      case (Suc a)
      with nth[OF k'] pds[of a] show ?thesis by simp
    qed
  qed
  have hd0: "hd ?so = ?so ! 0" using lso by (cases ?so) simp_all
  have so0: "1 \<le> hd ?so"
  proof -
    have "0 \<le> (int d + 2 * ?pd ! 0 - ?ks ! 0) div ?st ! 0"
      using fit'[of 0] stpos[of 0] by (simp add: pos_imp_zdiv_nonneg_iff)
    with nth[of 0] hd0 show ?thesis by simp
  qed
  let ?tgt = "tgt_conv (?ks ! 0) ((d' # rest) ! 0)
                (map (\<lambda>x. int ((d' # rest) ! x) - ?ks ! x + 1) [0..<length (d' # rest)] ! 0)
                (?st ! 0) (hd ?so)"
  have "\<exists>y. frames_loop ?tgt op (map ConvNd_layer (self_conv_layers op)) x' b c (d' # rest) ?so
               = Inr y"
  proof (rule frames_loop_built_succ[OF bl nd wf' sh' lr p(1,2) _ cout _ ks st pd lso _ so0])
    show "c = self_in_channels op" using cin sh by simp
    show "ConvNd_layer (Base p) = conv_forward p" for p by simp
    show "?so ! Suc a =
           (if False then (int (rest ! a) - 1) * ?st ! Suc a - 2 * ?pd ! Suc a + ?ks ! Suc a
            else (int (rest ! a) + 2 * ?pd ! Suc a - ?ks ! Suc a) div ?st ! Suc a + 1)"
      if "a < length rest" for a
      using nth[of "Suc a"] that by simp
    show "\<forall>a < length rest.
            1 \<le> (int (rest ! a) - 1) * ?st ! Suc a - 2 * ?pd ! Suc a + ?ks ! Suc a"
      if "False" using that by simp
    show "\<forall>a < length rest.
                 pad_ok (self_padding_mode op) (rest ! a) (?pd ! Suc a) (?pd ! Suc a) \<and>
                 ?ks ! Suc a \<le> int (rest ! a) + 2 * ?pd ! Suc a"
      if "\<not> False"
    proof (intro allI impI conjI)
      fix a assume a: "a < length rest"
      then have a': "Suc a < Suc (length rest)" by simp
      have "0 < rest ! a" using prest a by simp
      then show "pad_ok (self_padding_mode op) (rest ! a) (?pd ! Suc a) (?pd ! Suc a)"
      proof (rule pad_ok_nonneg[OF pdnn[OF a']])
        assume "self_padding_mode op \<noteq> ''zeros''"
        from refl'[OF this a'] show "?pd ! Suc a < int (rest ! a)" by simp
      qed
      from fit'[OF a'] show "?ks ! Suc a \<le> int (rest ! a) + 2 * ?pd ! Suc a" by simp
    qed
    show "int out < hd ?so" if "?tgt i j = Some out" for i j out
      using that by (rule tgt_conv_range)
  qed
  then obtain y where
    "frames_loop ?tgt op (map ConvNd_layer (self_conv_layers op)) x' b c (d' # rest) ?so = Inr y"
    by blast
  then have "ConvNd_forward op x = Inr y"
    unfolding ConvNd_forward_eq ConvNd_apply_eq pro
    by (simp add: sh' cs)
  then show ?thesis by blast
qed

lemma tgt_transpose_iff:
  "int out < s0 \<Longrightarrow>
   tgt_transpose k0 p0 s0 i j = Some out \<longleftrightarrow> (int i + k0 div 2) + int j - k0 div 2 - p0 = int out"
  by (auto simp: tgt_transpose_def Let_def)

lemma tgt_conv_raw:
  "int j - (int i - k0 div 2) - (int n_i - (int n_i - k0 + 1)) div 2 - (1 - k0 mod 2) = int j - int i"
proof -
  have "(k0 - 1) div 2 = k0 div 2 - (1 - k0 mod 2)" by presburger
  then show ?thesis by simp
qed

lemma tgt_conv_eq:
  "tgt_conv k0 n_i (int n_i - k0 + 1) s0 so0 i j =
     (if (int j - int i) div s0 < 0 \<or> so0 \<le> (int j - int i) div s0 \<or> (int j - int i) mod s0 \<noteq> 0
      then None else Some (nat ((int j - int i) div s0)))"
  unfolding tgt_conv_def Let_def tgt_conv_raw by simp

subsection \<open>The errors of the forward passes\<close>

definition engine_error :: "error \<Rightarrow> bool" where
  "engine_error e \<longleftrightarrow>
     e = IndexError \<or> e = ZeroDivisionError \<or> e = ValueError \<or> e = RuntimeError \<or> e = TypeError"

lemma engine_error_simps [simp]:
  "engine_error IndexError" "engine_error ZeroDivisionError" "engine_error ValueError"
  "engine_error RuntimeError" "engine_error TypeError" "\<not> engine_error (AssertionError m)"
  "\<not> engine_error AttributeError"
  by (simp_all add: engine_error_def)

lemma py_index_error: "py_index xs i = Inl e \<Longrightarrow> engine_error e"
  by (auto simp: py_index_def split: if_splits)

lemma view_engine_error: "view t sh = Inl e \<Longrightarrow> engine_error e"
  by (drule view_error) simp

lemma F_pad_error: "F_pad t ps mode = Inl e \<Longrightarrow> engine_error e"
  by (auto simp: F_pad_def split: prod.splits list.splits if_splits)

lemma select2_error: "select2 t j = Inl e \<Longrightarrow> engine_error e"
  by (auto simp: select2_def split: list.splits if_splits)

lemma torch_zeros_error: "torch_zeros sh = Inl e \<Longrightarrow> engine_error e"
  by (auto simp: torch_zeros_def split: if_splits)

lemma iadd_error: "iadd s t = Inl e \<Longrightarrow> engine_error e"
  by (auto simp: iadd_def split: if_splits)

lemma torch_stack_error: "torch_stack ts = Inl e \<Longrightarrow> engine_error e"
  by (auto simp: torch_stack_def split: list.splits if_splits)

lemma add_channel_error: "add_channel r k v = Inl e \<Longrightarrow> engine_error e"
  by (auto simp: add_channel_def split: list.splits if_splits)

lemma bias_at_error: "bias_at bt k = Inl e \<Longrightarrow> engine_error e"
  by (auto simp: bias_at_def split: list.splits if_splits)

lemma cuda_error: "cuda rt t = Inl e \<Longrightarrow> engine_error e"
  by (auto simp: cuda_def split: if_splits)

lemma conv_forward_error: "conv_forward p x = Inl e \<Longrightarrow> engine_error e"
  by (drule conv_forward_Inl) simp

lemma conv_sizes_error: "conv_sizes size_i pd ks st = Inl e \<Longrightarrow> engine_error e"
proof -
  assume "conv_sizes size_i pd ks st = Inl e"
  then obtain x where
    "(case py_index pd (int x) of
        Inl e \<Rightarrow> Inl e
      | Inr p \<Rightarrow>
          (case py_index ks (int x) of
             Inl e \<Rightarrow> Inl e
           | Inr k \<Rightarrow>
               (case py_index st (int x) of
                  Inl e \<Rightarrow> Inl e
                | Inr s \<Rightarrow>
                    if s = 0 then Inl ZeroDivisionError
                    else Inr ((int (size_i ! x) + 2 * p - k) div s + 1)))) = Inl e"
    unfolding conv_sizes_def by (blast dest: list_comp_Inl)
  then show ?thesis
    by (cases "py_index pd (int x)"; cases "py_index ks (int x)"; cases "py_index st (int x)")
       (auto dest: py_index_error split: if_splits)
qed

lemma transpose_sizes_error: "transpose_sizes size_i pd ks st = Inl e \<Longrightarrow> engine_error e"
proof -
  assume "transpose_sizes size_i pd ks st = Inl e"
  then obtain x where
    "(case py_index st (int x) of
        Inl e \<Rightarrow> Inl e
      | Inr s \<Rightarrow>
          (case py_index pd (int x) of
             Inl e \<Rightarrow> Inl e
           | Inr p \<Rightarrow>
               (case py_index ks (int x) of
                  Inl e \<Rightarrow> Inl e
                | Inr k \<Rightarrow> Inr ((int (size_i ! x) - 1) * s - 2 * p + (k - 1) + 1)))) = Inl e"
    unfolding transpose_sizes_def by (blast dest: list_comp_Inl)
  then show ?thesis
    by (cases "py_index pd (int x)"; cases "py_index ks (int x)"; cases "py_index st (int x)")
       (auto dest: py_index_error)
qed

lemma pad_leading_error: "pad_leading self x = Inl e \<Longrightarrow> engine_error e"
  unfolding pad_leading_def
  by (auto split: sum.splits dest: py_index_error view_engine_error F_pad_error)

lemma frame_input_error: "frame_input input b c size_i j = Inl e \<Longrightarrow> engine_error e"
  unfolding frame_input_def
  by (auto split: sum.splits dest: view_engine_error select2_error)

lemma child_call_error:
  assumes "child_call layers input b c size_i i j = Inl e"
    and "\<And>l ci e. l \<in> set layers \<Longrightarrow> l ci = Inl e \<Longrightarrow> engine_error e"
  shows "engine_error e"
proof (cases "frame_input input b c size_i j")
  case (Inl e')
  with assms(1) frame_input_error[OF Inl] show ?thesis by (simp add: child_call_def)
next
  case (Inr ci)
  show ?thesis
  proof (cases "i < length layers")
    case False
    with assms(1) Inr show ?thesis by (simp add: child_call_def py_index_nat)
  next
    case True
    with assms(1) Inr have "(layers ! i) ci = Inl e" by (simp add: child_call_def py_index_nat)
    with assms(2)[of "layers ! i" ci e] True show ?thesis by simp
  qed
qed

lemma loop_body_error:
  assumes "loop_body tgt layers input b c size_i ij st = Inl e"
    and "\<And>l ci e. l \<in> set layers \<Longrightarrow> l ci = Inl e \<Longrightarrow> engine_error e"
  shows "engine_error e"
proof -
  obtain fr em where st: "st = (fr, em)" by (cases st)
  from assms(1) obtain out where
    cf: "convolve_frame layers input b c size_i (fst ij) (snd ij) out (fr, em) = Inl e"
    by (auto simp: loop_body_def st split: option.splits)
  show ?thesis
  proof (cases "child_call layers input b c size_i (fst ij) (snd ij)")
    case (Inl e')
    with cf have e: "e' = e" by (simp add: convolve_frame_eq)
    have "engine_error e'"
      by (rule child_call_error[OF Inl]) (use assms(2) in blast)
    with e show ?thesis by simp
  next
    case (Inr fc)
    with cf show ?thesis
      by (auto simp: convolve_frame_eq split: if_splits sum.splits dest: iadd_error)
  qed
qed

lemma bias_body_error: "bias_body self k r = Inl e \<Longrightarrow> engine_error e"
  unfolding bias_body_def
  by (auto split: if_splits option.splits sum.splits dest: bias_at_error add_channel_error)

lemma stack_and_bias_error: "stack_and_bias self b frs = Inl e \<Longrightarrow> engine_error e"
  unfolding stack_and_bias_eq
  by (auto split: sum.splits if_splits
           dest: torch_stack_error view_engine_error bias_body_error dest!: for_loop_error)

lemma frames_loop_error:
  assumes "frames_loop tgt self layers input b c size_i size_o = Inl e"
    and "\<And>l ci e. l \<in> set layers \<Longrightarrow> l ci = Inl e \<Longrightarrow> engine_error e"
  shows "engine_error e"
proof -
  have loop: "engine_error e'"
    if "for_loop ps (loop_body tgt layers input b c size_i) s = Inl e'" for ps s e'
  proof -
    from for_loop_error[OF that] obtain ij s1 where
      "loop_body tgt layers input b c size_i ij s1 = Inl e'" by blast
    show ?thesis
      by (rule loop_body_error[OF \<open>loop_body tgt layers input b c size_i ij s1 = Inl e'\<close>])
         (use assms(2) in blast)
  qed
  from assms(1) show ?thesis
    unfolding frames_loop_product
    by (auto split: sum.splits dest: py_index_error torch_zeros_error loop stack_and_bias_error)
qed

lemma cuda_frames_loop_error:
  assumes "cuda_frames_loop rt tgt self layers input b c size_i size_o = Inl e"
    and "\<And>l ci e. l \<in> set layers \<Longrightarrow> l ci = Inl e \<Longrightarrow> engine_error e"
  shows "engine_error e"
proof -
  have loop: "engine_error e'"
    if l: "for_loop xs (\<lambda>i. for_loop ys (\<lambda>j. loop_body tgt layers input b c size_i (i, j))) s
             = Inl e'" for xs ys s e'
  proof -
    from for_loop_error[OF l] obtain i s1 where
      l1: "for_loop ys (\<lambda>j. loop_body tgt layers input b c size_i (i, j)) s1 = Inl e'" by blast
    from for_loop_error[OF l1] obtain j s2 where
      l2: "loop_body tgt layers input b c size_i (i, j) s2 = Inl e'" by blast
    show ?thesis
      by (rule loop_body_error[OF l2]) (use assms(2) in blast)
  qed
  from assms(1) show ?thesis
    unfolding cuda_frames_loop_def cuda_def
    by (auto split: sum.splits if_splits
             dest: py_index_error torch_zeros_error loop stack_and_bias_error)
qed

lemma ConvNd_apply_error:
  assumes "ConvNd_apply self layers x = Inl e"
    and "\<And>l ci e. l \<in> set layers \<Longrightarrow> l ci = Inl e \<Longrightarrow> engine_error e"
  shows "engine_error e"
proof -
  have fl: "engine_error e'"
    if "frames_loop tgt self layers input b c size_i size_o = Inl e'"
    for tgt input b c size_i size_o e'
    by (rule frames_loop_error[OF that]) (use assms(2) in blast)
  from assms(1) show ?thesis
    unfolding ConvNd_apply_eq
    by (auto split: sum.splits list.splits if_splits
             dest: pad_leading_error conv_sizes_error fl)
qed

lemma ConvTransposeNd_apply_error:
  assumes "ConvTransposeNd_apply rt self layers x = Inl e"
    and "\<And>l ci e. l \<in> set layers \<Longrightarrow> l ci = Inl e \<Longrightarrow> engine_error e"
  shows "engine_error e"
proof -
  have fl: "engine_error e'"
    if "cuda_frames_loop rt tgt self layers input b c size_i size_o = Inl e'"
    for tgt input b c size_i size_o e'
    by (rule cuda_frames_loop_error[OF that]) (use assms(2) in blast)
  from assms(1) show ?thesis
    unfolding ConvTransposeNd_apply_eq
    by (auto split: sum.splits list.splits dest: transpose_sizes_error fl)
qed

lemma table_lookup:
  "py_index (conv_table tr) (nd - 2) =
     (if -1 \<le> nd \<and> nd \<le> 4 then Inr (conv_table tr ! nat ((nd - 2) mod 3)) else Inl IndexError)"
proof -
  consider "nd < -1" | "nd = -1" | "nd = 0" | "nd = 1" | "nd = 2" | "nd = 3" | "nd = 4" | "4 < nd"
    by linarith
  then show ?thesis
    by cases (auto simp: py_index_def conv_table_def)
qed

lemma Nd_init_misconfigured:
  assumes "misconfigured a"
  shows "Nd_init tr eng a n =
           (if -1 \<le> num_dims a \<and> num_dims a \<le> 4
            then (Inl (AssertionError (config_error tr a)), n) else (Inl IndexError, n))"
proof (cases "-1 \<le> num_dims a \<and> num_dims a \<le> 4")
  case False
  then show ?thesis
    by (auto simp: Nd_init_unfold Let_def table_lookup)
next
  case True
  with assms show ?thesis
    unfolding Nd_init_unfold Let_def table_lookup misconfigured_def config_error_def
    by simp
qed

subsection \<open>Zero weights\<close>

lemma sum_list_zero: "(\<And>x. x \<in> set xs \<Longrightarrow> f x = 0) \<Longrightarrow> sum_list (map f xs) = (0::'a::comm_monoid_add)"
  by (induction xs) simp_all

lemma sum_over_zero:
  fixes f :: "nat list \<Rightarrow> 'a::comm_monoid_add"
  shows "(\<And>js. valid_index ns js \<Longrightarrow> f js = 0) \<Longrightarrow> sum_over ns f = 0"
proof (induction ns arbitrary: f)
  case Nil
  then show ?case by (simp add: valid_index_Nil)
next
  case (Cons n ns)
  have "sum_over ns (\<lambda>js. f (i # js)) = 0" if "i < n" for i
    by (rule Cons.IH) (use that Cons.prems in \<open>simp add: valid_index_Cons_Cons\<close>)
  then have "sum_list (map (\<lambda>i. sum_over ns (\<lambda>js. f (i # js))) [0..<n]) = 0"
    by (intro sum_list_zero) simp
  then show ?case by simp
qed

lemma elem_zero:
  assumes "wf_tensor w" "\<forall>v \<in> set (data w). v = 0" "valid_index (shape w) idx"
  shows "elem w idx = 0"
proof -
  from flat_lt[OF assms(3)] assms(1) have "flat (shape w) idx < length (data w)"
    by (simp add: wf_tensor_def)
  then have "data w ! flat (shape w) idx \<in> set (data w)" by simp
  with assms(2) show ?thesis by (simp add: elem_def)
qed

lemma conv_out_zero:
  fixes p :: "'a::comm_semiring_0 conv_prim"
  assumes tr: "\<not> class_transposed (p_class p)" and b: "p_bias p = None"
    and w: "shape (p_weight p) = weight_shape p" "wf_tensor (p_weight p)"
    and z: "\<forall>v \<in> set (data (p_weight p)). v = 0"
    and co: "idx ! 1 < p_out_channels p"
  shows "conv_out p x idx = 0"
proof -
  have e: "elem (p_weight p) (idx ! 1 # ci # kk) = 0"
    if "ci < p_in_channels p div p_groups p" "valid_index (map nat (p_kernel_size p)) kk" for ci kk
  proof (rule elem_zero[OF w(2) z])
    show "valid_index (shape (p_weight p)) (idx ! 1 # ci # kk)"
      using that co tr by (simp add: w(1) weight_shape_def valid_index_Cons_Cons)
  qed
  have "sum_over (map nat (p_kernel_size p))
          (\<lambda>kk. elem (p_weight p) (idx ! 1 # ci # kk) * g ci kk) = 0"
    if "ci < p_in_channels p div p_groups p" for ci and g :: "nat \<Rightarrow> nat list \<Rightarrow> 'a"
    by (rule sum_over_zero) (use e[OF that] in \<open>simp del: One_nat_def\<close>)
  then have "sum_list (map (\<lambda>ci. sum_over (map nat (p_kernel_size p))
          (\<lambda>kk. elem (p_weight p) (idx ! 1 # ci # kk) * g ci kk))
          [0..<p_in_channels p div p_groups p]) = 0" for g :: "nat \<Rightarrow> nat list \<Rightarrow> 'a"
    by (intro sum_list_zero) simp
  then show ?thesis
    unfolding conv_out_def Let_def bias_term_def b
    by simp
qed

lemma conv_transpose_out_zero:
  fixes p :: "'a::comm_semiring_0 conv_prim"
  assumes tr: "class_transposed (p_class p)" and b: "p_bias p = None"
    and w: "shape (p_weight p) = weight_shape p" "wf_tensor (p_weight p)"
    and z: "\<forall>v \<in> set (data (p_weight p)). v = 0"
    and co: "idx ! 1 < p_out_channels p"
    and g: "0 < p_groups p" "p_in_channels p mod p_groups p = 0"
           "p_out_channels p mod p_groups p = 0"
  shows "conv_transpose_out p x idx = 0"
proof -
  let ?g = "p_groups p"
  let ?cin_g = "p_in_channels p div ?g" and ?cout_g = "p_out_channels p div ?g"
  from g have cin: "p_in_channels p = ?g * ?cin_g" and cout: "p_out_channels p = ?g * ?cout_g"
    by auto
  from co cout have cg: "0 < ?cout_g" by (cases "?cout_g") auto
  have grp: "idx ! 1 div ?cout_g < ?g"
    using co cout cg by (metis less_mult_imp_div_less mult.commute)
  have ci_lt: "(idx ! 1 div ?cout_g) * ?cin_g + ci' < p_in_channels p" if "ci' < ?cin_g" for ci'
  proof -
    have "(idx ! 1 div ?cout_g) * ?cin_g + ci' < (idx ! 1 div ?cout_g) * ?cin_g + ?cin_g"
      using that by simp
    also have "\<dots> = Suc (idx ! 1 div ?cout_g) * ?cin_g" by simp
    also have "\<dots> \<le> ?g * ?cin_g"
      using grp by (intro mult_le_mono1) simp
    finally show ?thesis using cin by simp
  qed
  have e: "elem (p_weight p) (((idx ! 1 div ?cout_g) * ?cin_g + ci') # (idx ! 1 mod ?cout_g) # kk) = 0"
    if "ci' < ?cin_g" "valid_index (map nat (p_kernel_size p)) kk" for ci' kk
  proof (rule elem_zero[OF w(2) z])
    show "valid_index (shape (p_weight p))
            (((idx ! 1 div ?cout_g) * ?cin_g + ci') # (idx ! 1 mod ?cout_g) # kk)"
      using that ci_lt[OF that(1)] cg tr
      by (simp add: w(1) weight_shape_def valid_index_Cons_Cons)
  qed
  have "sum_over (map nat (p_kernel_size p))
          (\<lambda>kk. if c ci' kk
                 then elem (p_weight p)
                        (((idx ! 1 div ?cout_g) * ?cin_g + ci') # (idx ! 1 mod ?cout_g) # kk) * h ci' kk
                 else 0) = 0"
    if "ci' < ?cin_g" for ci' and c :: "nat \<Rightarrow> nat list \<Rightarrow> bool" and h :: "nat \<Rightarrow> nat list \<Rightarrow> 'a"
    by (rule sum_over_zero) (use e[OF that] in \<open>simp del: One_nat_def\<close>)
  then have "sum_list (map (\<lambda>ci'. sum_over (map nat (p_kernel_size p))
          (\<lambda>kk. if c ci' kk
                 then elem (p_weight p)
                        (((idx ! 1 div ?cout_g) * ?cin_g + ci') # (idx ! 1 mod ?cout_g) # kk) * h ci' kk
                 else 0)) [0..<?cin_g]) = 0"
    for c :: "nat \<Rightarrow> nat list \<Rightarrow> bool" and h :: "nat \<Rightarrow> nat list \<Rightarrow> 'a"
    by (intro sum_list_zero) simp
  then show ?thesis
    unfolding conv_transpose_out_def Let_def bias_term_def b
    by simp
qed

lemma without_bias_simps [simp]:
  "self_rank (without_bias op) = self_rank op"
  "self_in_channels (without_bias op) = self_in_channels op"
  "self_out_channels (without_bias op) = self_out_channels op"
  "self_num_dims (without_bias op) = self_num_dims op"
  "self_kernel_size (without_bias op) = self_kernel_size op"
  "self_stride (without_bias op) = self_stride op"
  "self_padding (without_bias op) = self_padding op"
  "self_padding_mode (without_bias op) = self_padding_mode op"
  "self_groups (without_bias op) = self_groups op"
  "self_use_bias (without_bias op) = False"
  "self_bias (without_bias op) = None"
  "self_conv_layers (without_bias op) = self_conv_layers op"
  by (simp_all add: without_bias_def)

lemma built_without_bias: "built tr op \<Longrightarrow> built tr (without_bias op)"
  by (simp add: built_def built_prim_def)

lemma without_bias_derived [simp]:
  "valid_config (without_bias op) = valid_config op"
  "valid_shape (without_bias op) x = valid_shape op x"
  "ConvNd_valid_input (without_bias op) x = ConvNd_valid_input op x"
  "ConvTransposeNd_valid_input (without_bias op) x = ConvTransposeNd_valid_input op x"
  "out_sizes tr (without_bias op) sh = out_sizes tr op sh"
  "padded_input (without_bias op) x = padded_input op x"
  "frame_value tgt L (without_bias op) x idx = frame_value tgt L op x idx"
  "bias_value (without_bias op) k = 0"
  by (simp_all add: valid_config_def valid_shape_def ConvNd_valid_input_def
        ConvTransposeNd_valid_input_def out_sizes_def padded_input_def frame_value_def
        bias_value_def cong: if_cong)

lemma frame_value_zero:
  fixes op :: "'a::comm_semiring_0 ndconv"
  assumes bl: "built tr op" and zw: "zero_weights op"
    and L: "\<And>p. L (Base p) = conv_forward p"
    and calls: "\<forall>i < length (self_conv_layers op). \<forall>j < shape x ! 2. \<forall>out. tgt i j = Some out \<longrightarrow>
                  (\<exists>fc. L (self_conv_layers op ! i) (slice2 x j) = Inr fc \<and>
                       shape fc = b # self_out_channels op # rest')"
    and v: "valid_index (b # self_out_channels op # rest') (take 2 idx @ drop 3 idx)"
  shows "frame_value tgt L op x idx = 0"
  unfolding frame_value_def
proof (rule sum_list_zero)
  fix ij assume "ij \<in> set (List.product [0..<length (self_conv_layers op)] [0..<shape x ! 2])"
  then have i: "fst ij < length (self_conv_layers op)" and j: "snd ij < shape x ! 2" by auto
  let ?idx = "take 2 idx @ drop 3 idx"
  show "(if tgt (fst ij) (snd ij) = Some (idx ! 2)
         then elem (projr (L (self_conv_layers op ! fst ij) (slice2 x (snd ij)))) ?idx
         else 0) = 0"
  proof (cases "tgt (fst ij) (snd ij) = Some (idx ! 2)")
    case False
    then show ?thesis by simp
  next
    case True
    with calls i j obtain fc where
      fc: "L (self_conv_layers op ! fst ij) (slice2 x (snd ij)) = Inr fc"
      and shf: "shape fc = b # self_out_channels op # rest'" by blast
    from built_child[OF bl i] obtain p where p: "self_conv_layers op ! fst ij = Base p"
      and bp: "built_prim tr op p" by blast
    from fc p L have cf: "conv_forward p (slice2 x (snd ij)) = Inr fc" by simp
    from conv_forward_Inr[OF cf] have
      tab: "fc = tabulate (shape fc)
                  (if class_transposed (p_class p) then conv_transpose_out p (slice2 x (snd ij))
                   else conv_out p (slice2 x (snd ij)))" by blast
    from bp have trp: "class_transposed (p_class p) = tr"
      and pout: "p_out_channels p = self_out_channels op"
      and pb: "p_bias p = None"
      and w: "shape (p_weight p) = weight_shape p" "wf_tensor (p_weight p)"
      and g: "0 < p_groups p" "p_in_channels p mod p_groups p = 0"
             "p_out_channels p mod p_groups p = 0"
      unfolding built_prim_def by blast+
    from zw i p have z: "\<forall>v \<in> set (data (p_weight p)). v = 0"
      by (force simp: zero_weights_def list_all_iff dest: nth_mem)
    from v have co: "?idx ! 1 < p_out_channels p"
      by (auto simp: valid_index_Cons pout)
    have "(if class_transposed (p_class p) then conv_transpose_out p (slice2 x (snd ij))
           else conv_out p (slice2 x (snd ij))) ?idx = 0"
    proof (cases tr)
      case True
      then show ?thesis
        using conv_transpose_out_zero[OF _ pb w z co g] trp by simp
    next
      case False
      then show ?thesis
        using conv_out_zero[OF _ pb w z co] trp by simp
    qed
    moreover have "elem fc ?idx =
          (if class_transposed (p_class p) then conv_transpose_out p (slice2 x (snd ij))
           else conv_out p (slice2 x (snd ij))) ?idx"
      by (subst tab) (use v shf in \<open>simp add: elem_tabulate\<close>)
    ultimately show ?thesis using True fc by simp
  qed
qed

lemma bias_generic:
  fixes op :: "'a::comm_semiring_0 ndconv"
  assumes bl: "built tr op" and ub: "self_use_bias op"
    and L: "\<And>p. L (Base p) = conv_forward p"
    and ne: "so \<noteq> []"
    and y: "y = tabulate (b # self_out_channels op # map nat so)
                  (\<lambda>idx. frame_value tgt L op x idx + bias_value op (idx ! 1))"
    and y0: "y0 = tabulate (b # self_out_channels op # map nat so)
                  (\<lambda>idx. frame_value tgt L op x idx + 0)"
    and calls: "\<forall>i < length (self_conv_layers op). \<forall>j < shape x ! 2. \<forall>out. tgt i j = Some out \<longrightarrow>
                  (\<exists>fc. L (self_conv_layers op ! i) (slice2 x j) = Inr fc \<and>
                       shape fc = b # self_out_channels op # map nat (drop 1 so))"
  shows "\<exists>bt. self_bias op = Some bt \<and> shape bt = [self_out_channels op] \<and>
           shape y = shape y0 \<and>
           (\<forall>idx. valid_index (shape y) idx \<longrightarrow>
              elem y idx = elem y0 idx + elem bt [idx ! 1] \<and>
              (zero_weights op \<longrightarrow> elem y idx = elem bt [idx ! 1]))"
proof -
  from bl ub obtain bt where bt: "self_bias op = Some bt" "shape bt = [self_out_channels op]"
    unfolding built_def by blast
  have bv: "bias_value op k = elem bt [k]" for k
    by (simp add: bias_value_def ub bt)
  from ne obtain s0 sr where so: "so = s0 # sr" by (cases so) auto
  have el: "elem y idx = elem y0 idx + elem bt [idx ! 1] \<and>
        (zero_weights op \<longrightarrow> elem y idx = elem bt [idx ! 1])"
    if v: "valid_index (shape y) idx" for idx
  proof -
    from v have v': "valid_index (b # self_out_channels op # map nat so) idx" by (simp add: y)
    then have "valid_index (b # self_out_channels op # nat s0 # map nat sr) idx" by (simp add: so)
    from valid_index_stack[OF this] have
      vi: "valid_index (b # self_out_channels op # map nat (drop 1 so)) (take 2 idx @ drop 3 idx)"
      by (simp add: so)
    have e: "elem y idx = frame_value tgt L op x idx + elem bt [idx ! 1]"
      unfolding y using v' by (simp add: elem_tabulate bv)
    have e0: "elem y0 idx = frame_value tgt L op x idx"
      unfolding y0 using v' by (simp add: elem_tabulate)
    have "frame_value tgt L op x idx = 0" if "zero_weights op"
      by (rule frame_value_zero[OF bl that L calls vi])
    with e e0 show ?thesis by simp
  qed
  have "shape y = shape y0" by (simp add: y y0)
  with bt el show ?thesis by blast
qed

subsection \<open>Sums\<close>

lemma sum_over_cong:
  fixes f g :: "nat list \<Rightarrow> 'a::comm_monoid_add"
  shows "(\<And>js. valid_index ns js \<Longrightarrow> f js = g js) \<Longrightarrow> sum_over ns f = sum_over ns g"
proof (induction ns arbitrary: f g)
  case Nil
  then show ?case by (simp add: valid_index_Nil)
next
  case (Cons n ns)
  have "sum_over ns (\<lambda>js. f (i # js)) = sum_over ns (\<lambda>js. g (i # js))" if "i < n" for i
    by (rule Cons.IH) (use that Cons.prems in simp)
  then have "map (\<lambda>i. sum_over ns (\<lambda>js. f (i # js))) [0..<n] =
             map (\<lambda>i. sum_over ns (\<lambda>js. g (i # js))) [0..<n]"
    by simp
  then show ?case by (simp only: sum_over.simps)
qed

lemma sum_list_cong:
  "(\<And>x. x \<in> set xs \<Longrightarrow> f x = g x) \<Longrightarrow> sum_list (map f xs) = sum_list (map g xs)"
  by (rule arg_cong[where f=sum_list]) simp

lemma sum_list_swap:
  fixes f :: "'b \<Rightarrow> 'c \<Rightarrow> 'a::comm_monoid_add"
  shows "sum_list (map (\<lambda>x. sum_list (map (f x) ys)) xs) =
         sum_list (map (\<lambda>y. sum_list (map (\<lambda>x. f x y) xs)) ys)"
proof (induction xs)
  case Nil
  then show ?case by (simp add: sum_list_zero)
next
  case (Cons x xs)
  then show ?case by (simp add: sum_list_addf)
qed

lemma sum_list_single:
  fixes g :: "nat \<Rightarrow> 'a::comm_monoid_add"
  shows "a < n \<Longrightarrow> sum_list (map (\<lambda>j. if j = a then g j else 0) [0..<n]) = g a"
proof (induction n)
  case 0
  then show ?case by simp
next
  case (Suc n)
  show ?case
  proof (cases "a = n")
    case True
    have "sum_list (map (\<lambda>j. if j = a then g j else 0) [0..<n]) = 0"
      by (rule sum_list_zero) (use True in auto)
    with True show ?thesis by simp
  next
    case False
    with Suc have "sum_list (map (\<lambda>j. if j = a then g j else 0) [0..<n]) = g a" by simp
    with False show ?thesis by simp
  qed
qed

subsection \<open>The frame a pair writes to, with stride\<close>

lemma tgt_conv_hit:
  assumes s: "1 \<le> s0" and o: "int out < so0"
  shows "tgt_conv k0 n_i (int n_i - k0 + 1) s0 so0 i j = Some out \<longleftrightarrow>
         int j = int out * s0 + int i"
proof -
  let ?r = "int j - int i"
  have "(?r div s0 = int out \<and> ?r mod s0 = 0) \<longleftrightarrow> ?r = int out * s0"
    using s by (metis add.right_neutral div_mult_mod_eq mod_mult_self2_is_0
        nonzero_mult_div_cancel_right not_one_le_zero)
  moreover have "tgt_conv k0 n_i (int n_i - k0 + 1) s0 so0 i j = Some out \<longleftrightarrow>
                 ?r div s0 = int out \<and> ?r mod s0 = 0"
    using o by (auto simp: tgt_conv_eq)
  ultimately show ?thesis by auto
qed

lemma hit_in_range:
  assumes s: "1 \<le> s0" and k: "int i < k0" and o: "int out < (D - k0) div s0 + 1"
  shows "int out * s0 + int i < D"
proof -
  from o have "int out \<le> (D - k0) div s0" by simp
  then have "int out * s0 \<le> ((D - k0) div s0) * s0" using s by (simp add: mult_right_mono)
  also have "\<dots> \<le> D - k0"
    using s by (metis div_mult_mod_eq le_add_same_cancel1 not_one_le_zero Euclidean_Rings.pos_mod_sign
        less_le_trans zero_less_one)
  finally show ?thesis using k by simp
qed

section \<open>The claims\<close>

text \<open>
  C1: for \<^verbatim>\<open>num_dims - 1 > 3\<close> the constructor is meant to build \<^verbatim>\<open>kernel_size[0]\<close> recursive
  \<^verbatim>\<open>ConvNd\<close> children of \<^verbatim>\<open>num_dims - 1\<close> dimensions (lines 85 to 96 of the source). The code
  does not: at \<^verbatim>\<open>num_dims = 5\<close> (where \<^verbatim>\<open>num_dims - 1 = 4\<close> is not 3) it raises \<open>IndexError\<close>
  while it selects the base primitive, \<^verbatim>\<open>(Conv1d, Conv2d, Conv3d)[3]\<close>, and has built no
  child at all: the engine's creation counter is unchanged.
\<close>

theorem ConvNd_five_dims_builds_no_recursive_children:
  "num_dims (example_args 5) - 1 \<noteq> 3 \<and>
   length (as_tuple (kernel_size (example_args 5)) (num_dims (example_args 5))) = 5 \<and>
   py_index (conv_table False) (num_dims (example_args 5) - 1 - 1) = Inl IndexError \<and>
   ConvNd_init unit_engine (example_args 5) 0 = (Inl IndexError, 0)"
  by code_simp

text \<open>
  C2: for every \<^verbatim>\<open>num_dims >= 5\<close> both constructors raise \<open>IndexError\<close> while selecting the
  base primitive, with the engine's creation counter unchanged (no child has been built);
  and every operator that either constructor returns has only base primitives as children
  (the branch that builds recursive children is never taken).
\<close>

theorem high_dims_rejected_and_children_are_leaves:
  "(5 \<le> num_dims a \<longrightarrow>
      ConvNd_init eng a n = (Inl IndexError, n) \<and>
      ConvTransposeNd_init eng a n = (Inl IndexError, n)) \<and>
   (ConvNd_init eng a n = (Inr op, n') \<or> ConvTransposeNd_init eng a n = (Inr op, n') \<longrightarrow>
      num_dims a < 5 \<and> list_all is_Base (self_conv_layers op) \<and>
      \<not> list_ex is_Sub (self_conv_layers op))"
proof -
  have "num_dims a < 5 \<and> list_all is_Base (self_conv_layers op) \<and>
        \<not> list_ex is_Sub (self_conv_layers op)"
    if "Nd_init tr eng a n = (Inr op, n')" for tr
  proof -
    from Nd_init_Inr[OF that] obtain conv_f where
      "py_index (conv_table tr) (num_dims a - 2) = Inr conv_f"
      "\<forall>l \<in> set (self_conv_layers op). is_Base l"
      by blast
    with py_index_table_Inr[of tr "num_dims a" conv_f] show ?thesis
      by (auto simp: list_all_iff list_ex_iff layer.disc_eq_case split: layer.splits)
  qed
  then show ?thesis
    by (auto simp: ConvNd_init_def ConvTransposeNd_init_def Nd_init_high_dims)
qed

theorem high_dims_rejected_and_children_are_leaves_witness:
  "ConvNd_init unit_engine (example_args 5) 0 = (Inl IndexError, 0) \<and>
   ConvTransposeNd_init unit_engine (example_args 5) 0 = (Inl IndexError, 0) \<and>
   ConvNd_init unit_engine (example_args 3) 0 = (Inr (example_op 3), 2) \<and>
   list_all is_Base (self_conv_layers (example_op 3)) \<and>
   \<not> list_ex is_Sub (self_conv_layers (example_op 3))"
proof -
  have five: "5 \<le> num_dims (example_args 5)"
    by (simp add: example_args_def)
  have c: "ConvNd_init unit_engine (example_args 3) 0 = (Inr (example_op 3), 2)"
    by code_simp
  from high_dims_rejected_and_children_are_leaves[of "example_args 5" unit_engine 0] five
       high_dims_rejected_and_children_are_leaves[of "example_args 3" unit_engine 0 "example_op 3" 2] c
  show ?thesis by simp
qed


text \<open>
  C4, as stated: for every valid input the output of the forward pass has the extent
  \<open>floor((in_len + 2 * pad - k) / stride + 1)\<close> along each axis. This fails for
  \<^verbatim>\<open>num_dims = 1\<close>: both constructors succeed (the table index \<open>-1\<close> selects the
  three-dimensional primitive, with empty kernel, stride and padding), but on the input of
  spatial shape \<open>(3)\<close>, where the formula gives the extent 2, both forward passes raise and
  there is no output.
\<close>

theorem one_dim_forward_raises:
  "ConvNd_init unit_engine (example_args 1) 0 = (Inr (example_op 1), 2) \<and>
   self_num_dims (example_op 1) = 1 \<and>
   self_kernel_size (example_op 1) = [2] \<and> self_stride (example_op 1) = [1] \<and>
   self_padding (example_op 1) = [0] \<and>
   wf_tensor (ones [1, 1, 3]) \<and> shape (ones [1, 1, 3]) = [1, 1, 3] \<and>
   ConvNd_forward (example_op 1) (ones [1, 1, 3]) = Inl RuntimeError \<and>
   ConvTransposeNd_init unit_engine (example_args 1) 0 = (Inr (example_transpose_op 1), 2) \<and>
   ConvTransposeNd_forward gpu_runtime (example_transpose_op 1) (ones [1, 1, 3])
     = Inl RuntimeError"
  by code_simp

text \<open>
  C4, amended: for an operator built by a constructor with \<^verbatim>\<open>2 <= num_dims <= 4\<close>, kernel
  sizes and strides at least 1 and non-negative padding, the forward pass returns on every
  valid input, and the output has as many axes as the input and the extent
  \<open>floor((in_len + 2 * pad - k) / stride) + 1\<close> along spatial axis \<open>k\<close> for \<^verbatim>\<open>ConvNd\<close>, and
  \<open>(in_len - 1) * stride - 2 * pad + k\<close> for \<^verbatim>\<open>ConvTransposeNd\<close> when a CUDA device is available
  and the input lives on it. Spatial axis 0 is the axis along which the frames are stacked,
  so the number of frames is the formula at \<open>k = 0\<close>.
\<close>

theorem output_spatial_extent:
  fixes op :: "'a::comm_semiring_0 ndconv"
  assumes "valid_config op"
  shows "(ConvNd_init eng a n = (Inr op, n') \<and> ConvNd_valid_input op x \<longrightarrow>
            (\<exists>y. ConvNd_forward op x = Inr y \<and>
                 length (shape y) = length (shape x) \<and>
                 (\<forall>k < length (shape x) - 2.
                    int (shape y ! (k + 2)) =
                      (int (shape x ! (k + 2)) + 2 * self_padding op ! k - self_kernel_size op ! k)
                        div self_stride op ! k + 1))) \<and>
         (ConvTransposeNd_init eng a n = (Inr op, n') \<and> ConvTransposeNd_valid_input op x \<and>
          cuda_available rt \<and> input_device rt = CUDA \<longrightarrow>
            (\<exists>y. ConvTransposeNd_forward rt op x = Inr y \<and>
                 length (shape y) = length (shape x) \<and>
                 (\<forall>k < length (shape x) - 2.
                    int (shape y ! (k + 2)) =
                      (int (shape x ! (k + 2)) - 1) * self_stride op ! k
                        - 2 * self_padding op ! k + self_kernel_size op ! k)))"
proof -
  from assms have nd: "2 \<le> self_num_dims op" "self_num_dims op \<le> 4"
    and ks: "\<forall>k \<in> set (self_kernel_size op). 1 \<le> k"
    and st: "\<forall>s \<in> set (self_stride op). 1 \<le> s"
    and pd: "\<forall>q \<in> set (self_padding op). 0 \<le> q"
    and cout: "0 < self_out_channels op"
    by (simp_all add: valid_config_def list_all_iff)
  have shape_of: "length (shape y) = length (shape x) \<and>
                  (\<forall>k < length (shape x) - 2. int (shape y ! (k + 2)) = out_sizes tr op (shape x) ! k)"
    if len: "3 \<le> length (shape x)"
      and nn: "\<forall>v \<in> set (out_sizes tr op (shape x)). 0 \<le> v"
      and y: "shape y = shape x ! 0 # self_out_channels op # map nat (out_sizes tr op (shape x))"
    for tr and y :: "'a tensor"
  proof -
    have l: "length (out_sizes tr op (shape x)) = length (shape x) - 2"
      by (simp add: out_sizes_def)
    have "int (shape y ! (k + 2)) = out_sizes tr op (shape x) ! k" if "k < length (shape x) - 2" for k
    proof -
      from that l have "out_sizes tr op (shape x) ! k \<in> set (out_sizes tr op (shape x))" by simp
      with nn have "0 \<le> out_sizes tr op (shape x) ! k" by blast
      with that l show ?thesis by (simp add: y)
    qed
    with len l show ?thesis by (simp add: y)
  qed
  have fwd: "\<exists>y. ConvNd_forward op x = Inr y \<and>
                 length (shape y) = length (shape x) \<and>
                 (\<forall>k < length (shape x) - 2.
                    int (shape y ! (k + 2)) =
                      (int (shape x ! (k + 2)) + 2 * self_padding op ! k - self_kernel_size op ! k)
                        div self_stride op ! k + 1)"
    if init: "ConvNd_init eng a n = (Inr op, n')" and vi: "ConvNd_valid_input op x"
  proof -
    from init have bl: "built False op"
      by (simp add: ConvNd_init_def Nd_init_built)
    from vi have wf: "wf_tensor x" and rk: "int (length (shape x)) = self_num_dims op + 2"
      and pos: "\<forall>d \<in> set (shape x). 0 < d" and cin: "shape x ! 1 = self_in_channels op"
      and fit: "\<forall>k < length (shape x) - 2.
                self_kernel_size op ! k \<le> int (shape x ! (k + 2)) + 2 * self_padding op ! k"
      and refl: "self_padding_mode op \<noteq> ''zeros'' \<Longrightarrow>
                 \<forall>k < length (shape x) - 2. self_padding op ! k < int (shape x ! (k + 2))"
      by (simp_all add: ConvNd_valid_input_def valid_shape_def list_all_iff)
    from ConvNd_forward_succ[OF bl nd ks st pd cout wf rk pos cin fit refl]
    obtain y where ok: "ConvNd_forward op x = Inr y" by blast
    from ConvNd_forward_char[OF bl wf ok] have
      "3 \<le> length (shape x)" "\<forall>v \<in> set (out_sizes False op (shape x)). 0 \<le> v"
      "shape y = shape x ! 0 # self_out_channels op # map nat (out_sizes False op (shape x))"
      by simp_all
    from shape_of[OF this] out_sizes_nth[where tr=False and op=op and sh="shape x"] ok
    show ?thesis by simp
  qed
  have tra: "\<exists>y. ConvTransposeNd_forward rt op x = Inr y \<and>
                 length (shape y) = length (shape x) \<and>
                 (\<forall>k < length (shape x) - 2.
                    int (shape y ! (k + 2)) =
                      (int (shape x ! (k + 2)) - 1) * self_stride op ! k
                        - 2 * self_padding op ! k + self_kernel_size op ! k)"
    if init: "ConvTransposeNd_init eng a n = (Inr op, n')"
      and vi: "ConvTransposeNd_valid_input op x"
      and cu: "cuda_available rt" and dev: "input_device rt = CUDA"
  proof -
    from init have bl: "built True op"
      by (simp add: ConvTransposeNd_init_def Nd_init_built)
    from vi have wf: "wf_tensor x" and rk: "int (length (shape x)) = self_num_dims op + 2"
      and pos: "\<forall>d \<in> set (shape x). 0 < d" and cin: "shape x ! 1 = self_in_channels op"
      and sizes: "\<forall>k < length (shape x) - 2.
                  1 \<le> (int (shape x ! (k + 2)) - 1) * self_stride op ! k
                         - 2 * self_padding op ! k + self_kernel_size op ! k"
      by (simp_all add: ConvTransposeNd_valid_input_def valid_shape_def list_all_iff)
    from ConvTransposeNd_forward_succ[OF bl nd ks st pd cout wf rk pos cin sizes cu dev]
    obtain y where ok: "ConvTransposeNd_forward rt op x = Inr y" by blast
    from ConvTransposeNd_forward_char[OF bl wf ok] have
      "3 \<le> length (shape x)" "\<forall>v \<in> set (out_sizes True op (shape x)). 0 \<le> v"
      "shape y = shape x ! 0 # self_out_channels op # map nat (out_sizes True op (shape x))"
      by simp_all
    from shape_of[OF this] out_sizes_nth[where tr=True and op=op and sh="shape x"] ok
    show ?thesis by simp
  qed
  from fwd tra show ?thesis by blast
qed

theorem output_spatial_extent_witness:
  "valid_config (strided_op 2) \<and>
   ConvNd_init unit_engine (strided_args 2) 0 = (Inr (strided_op 2), 2) \<and>
   ConvNd_valid_input (strided_op 2) (ones [1, 1, 5, 4]) \<and>
   self_kernel_size (strided_op 2) = [2, 2] \<and> self_stride (strided_op 2) = [2, 2] \<and>
   self_padding (strided_op 2) = [1, 1] \<and>
   ConvNd_forward (strided_op 2) (ones [1, 1, 5, 4])
     = Inr \<lparr>shape = [1, 1, 3, 3], data = [1, 2, 1, 2, 4, 2, 2, 4, 2]\<rparr> \<and>
   (\<exists>y. ConvNd_forward (strided_op 2) (ones [1, 1, 5, 4]) = Inr y \<and>
        int (shape y ! 2) = (5 + 2 * 1 - 2) div 2 + 1 \<and>
        int (shape y ! 3) = (4 + 2 * 1 - 2) div 2 + 1) \<and>
   valid_config (strided_transpose_op 2) \<and>
   ConvTransposeNd_init unit_engine (strided_args 2) 0 = (Inr (strided_transpose_op 2), 2) \<and>
   ConvTransposeNd_valid_input (strided_transpose_op 2) (ones [1, 1, 3, 3]) \<and>
   (\<exists>y. ConvTransposeNd_forward gpu_runtime (strided_transpose_op 2) (ones [1, 1, 3, 3]) = Inr y \<and>
        int (shape y ! 2) = (3 - 1) * 2 - 2 * 1 + 2 \<and>
        int (shape y ! 3) = (3 - 1) * 2 - 2 * 1 + 2)"
proof -
  have v1: "valid_config (strided_op 2)" and v2: "valid_config (strided_transpose_op 2)"
    by code_simp+
  have c1: "ConvNd_init unit_engine (strided_args 2) 0 = (Inr (strided_op 2), 2)"
    and c2: "ConvTransposeNd_init unit_engine (strided_args 2) 0 = (Inr (strided_transpose_op 2), 2)"
    by code_simp+
  have i1: "ConvNd_valid_input (strided_op 2) (ones [1, 1, 5, 4])"
    and i2: "ConvTransposeNd_valid_input (strided_transpose_op 2) (ones [1, 1, 3, 3])"
    by code_simp+
  have f1: "ConvNd_forward (strided_op 2) (ones [1, 1, 5, 4])
     = Inr \<lparr>shape = [1, 1, 3, 3], data = [1, 2, 1, 2, 4, 2, 2, 4, 2]\<rparr>"
    by code_simp
  have cfg: "self_kernel_size (strided_op 2) = [2, 2]" "self_stride (strided_op 2) = [2, 2]"
    "self_padding (strided_op 2) = [1, 1]"
    "self_kernel_size (strided_transpose_op 2) = [2, 2]"
    "self_stride (strided_transpose_op 2) = [2, 2]"
    "self_padding (strided_transpose_op 2) = [1, 1]"
    by code_simp+
  have s1: "shape (ones [1, 1, 5, 4]) = [1, 1, 5, 4]" and s2: "shape (ones [1, 1, 3, 3]) = [1, 1, 3, 3]"
    by (simp_all add: ones_def)
  have g: "cuda_available gpu_runtime" "input_device gpu_runtime = CUDA"
    by (simp_all add: gpu_runtime_def)
  from output_spatial_extent[OF v1, of unit_engine "strided_args 2" 0 2 "ones [1, 1, 5, 4]"] c1 i1
  obtain y where y: "ConvNd_forward (strided_op 2) (ones [1, 1, 5, 4]) = Inr y"
    and e: "\<forall>k < length (shape (ones [1, 1, 5, 4])) - 2.
              int (shape y ! (k + 2)) =
                (int (shape (ones [1, 1, 5, 4]) ! (k + 2)) + 2 * self_padding (strided_op 2) ! k
                   - self_kernel_size (strided_op 2) ! k) div self_stride (strided_op 2) ! k + 1"
    by blast
  from e[rule_format, of 0] e[rule_format, of 1]
  have a: "int (shape y ! 2) = (5 + 2 * 1 - 2) div 2 + 1 \<and> int (shape y ! 3) = (4 + 2 * 1 - 2) div 2 + 1"
    unfolding s1 cfg by (simp add: eval_nat_numeral)
  from output_spatial_extent[OF v2, of unit_engine "strided_args 2" 0 2 "ones [1, 1, 3, 3]" gpu_runtime]
       c2 i2 g
  obtain z where z: "ConvTransposeNd_forward gpu_runtime (strided_transpose_op 2) (ones [1, 1, 3, 3]) = Inr z"
    and e2: "\<forall>k < length (shape (ones [1, 1, 3, 3])) - 2.
              int (shape z ! (k + 2)) =
                (int (shape (ones [1, 1, 3, 3]) ! (k + 2)) - 1) * self_stride (strided_transpose_op 2) ! k
                  - 2 * self_padding (strided_transpose_op 2) ! k
                  + self_kernel_size (strided_transpose_op 2) ! k"
    by blast
  from e2[rule_format, of 0] e2[rule_format, of 1]
  have b: "int (shape z ! 2) = (3 - 1) * 2 - 2 * 1 + 2 \<and> int (shape z ! 3) = (3 - 1) * 2 - 2 * 1 + 2"
    unfolding s2 cfg by (simp add: eval_nat_numeral)
  from v1 c1 i1 cfg f1 y a v2 c2 i2 z b show ?thesis by blast
qed














text \<open>
  C10: the operator built with \<^verbatim>\<open>num_dims=3\<close>, one input and one output channel, kernel
  \<open>(2,2,2)\<close>, stride \<open>(1,1,1)\<close>, padding \<open>(0,0,0)\<close>, all weights 1 and bias 0, applied to the
  all-ones input of spatial shape \<open>(3,3,3)\<close>, returns a tensor of spatial shape \<open>(2,2,2)\<close>
  whose eight elements are all 8.
\<close>

theorem end_to_end_ones_3d:
  "ConvNd_init unit_engine (example_args 3) 0 = (Inr (example_op 3), 2) \<and>
   self_kernel_size (example_op 3) = [2, 2, 2] \<and>
   self_stride (example_op 3) = [1, 1, 1] \<and>
   self_padding (example_op 3) = [0, 0, 0] \<and>
   map (\<lambda>l. data (p_weight (the_prim l))) (self_conv_layers (example_op 3))
     = [[1, 1, 1, 1], [1, 1, 1, 1]] \<and>
   self_bias (example_op 3) = Some \<lparr>shape = [1], data = [0]\<rparr> \<and>
   ConvNd_forward (example_op 3) (ones [1, 1, 3, 3, 3])
     = Inr \<lparr>shape = [1, 1, 2, 2, 2], data = [8, 8, 8, 8, 8, 8, 8, 8]\<rparr>"
  by code_simp

theorem end_to_end_ones_3d_witness:
  "shape (projr (ConvNd_forward (example_op 3) (ones [1, 1, 3, 3, 3]))) = [1, 1, 2, 2, 2] \<and>
   list_all (\<lambda>v. v = 8) (data (projr (ConvNd_forward (example_op 3) (ones [1, 1, 3, 3, 3]))))"
  using end_to_end_ones_3d by simp

end
